theory Spec2Isabelle
  imports Complex_Main
begin

section \<open>JavaScript values used by the attendance routes\<close>

text \<open>
  The routes of \<^verbatim>\<open>src/routes/terminal.routes.js\<close> run on JavaScript built-ins:
  \<^verbatim>\<open>Date\<close>, \<^verbatim>\<open>String.prototype.split\<close>, \<^verbatim>\<open>parseInt\<close> and number arithmetic.
  They are modelled after ECMAScript's definitions.

  A time value is a number of milliseconds since the epoch, or NaN (an invalid date):
  \<open>int option\<close>, with \<open>None\<close> for NaN. The result of \<^verbatim>\<open>parseInt\<close> is an integer or
  NaN, again \<open>int option\<close>. Integers are exact here; a double is exact up to \<open>2^53\<close>,
  far beyond every hour and minute a theorem below is about.

  The server's time zone is a fixed offset \<open>tz\<close> in milliseconds (local time is
  \<open>t + tz\<close>); daylight-saving changes are not modelled.
\<close>

definition msPerDay :: int where "msPerDay = 86400000"
definition msPerHour :: int where "msPerHour = 3600000"
definition msPerMinute :: int where "msPerMinute = 60000"
definition msPerSecond :: int where "msPerSecond = 1000"

definition LocalTime :: "int \<Rightarrow> int \<Rightarrow> int" where
  "LocalTime tz t = t + tz"

definition UTC :: "int \<Rightarrow> int \<Rightarrow> int" where
  "UTC tz t = t - tz"

definition Day :: "int \<Rightarrow> int" where
  "Day t = t div msPerDay"

definition TimeClip :: "int \<Rightarrow> int option" where
  "TimeClip t = (if \<bar>t\<bar> > 8640000000000000 then None else Some t)"

definition MakeTime :: "int option \<Rightarrow> int option \<Rightarrow> int option \<Rightarrow> int option \<Rightarrow> int option" where
  "MakeTime hour minute sec ms =
     (case hour of None \<Rightarrow> None | Some h \<Rightarrow>
       (case minute of None \<Rightarrow> None | Some m \<Rightarrow>
         (case sec of None \<Rightarrow> None | Some s \<Rightarrow>
           (case ms of None \<Rightarrow> None | Some milli \<Rightarrow>
              Some (h * msPerHour + m * msPerMinute + s * msPerSecond + milli)))))"

definition MakeDate :: "int \<Rightarrow> int option \<Rightarrow> int option" where
  "MakeDate day time = (case time of None \<Rightarrow> None | Some tm \<Rightarrow> Some (day * msPerDay + tm))"

text \<open>\<^verbatim>\<open>d.setHours(hour, min, sec, ms)\<close>: the new time value of \<open>d\<close>.\<close>

definition setHours ::
  "int \<Rightarrow> int option \<Rightarrow> int option \<Rightarrow> int option \<Rightarrow> int option \<Rightarrow> int option \<Rightarrow> int option" where
  "setHours tz this hour minute sec ms =
     (case this of None \<Rightarrow> None | Some t \<Rightarrow>
       (case MakeDate (Day (LocalTime tz t)) (MakeTime hour minute sec ms) of
          None \<Rightarrow> None
        | Some date \<Rightarrow> TimeClip (UTC tz date)))"

text \<open>\<^verbatim>\<open>a > b\<close> on two dates compares their time values; it is false when one is NaN.\<close>

definition date_gt :: "int option \<Rightarrow> int option \<Rightarrow> bool" where
  "date_gt a b =
     (case a of None \<Rightarrow> False | Some x \<Rightarrow> (case b of None \<Rightarrow> False | Some y \<Rightarrow> x > y))"

subsection \<open>Strings\<close>

text \<open>
  A string is a list of 8-bit code units (Latin-1); code units above 255 do not occur in
  the inputs considered. \<^verbatim>\<open>s.split(':')\<close> cuts at every colon and always returns at
  least one part.
\<close>

fun split_on :: "char \<Rightarrow> string \<Rightarrow> string list" where
  "split_on sep [] = [[]]"
| "split_on sep (c # cs) =
     (if c = sep then [] # split_on sep cs
      else (case split_on sep cs of [] \<Rightarrow> [[c]] | p # ps \<Rightarrow> (c # p) # ps))"

text \<open>Reading an array element: \<^verbatim>\<open>undefined\<close> (here \<open>None\<close>) out of range.\<close>

fun nth_opt :: "'a list \<Rightarrow> nat \<Rightarrow> 'a option" where
  "nth_opt [] n = None"
| "nth_opt (x # xs) 0 = Some x"
| "nth_opt (x # xs) (Suc n) = nth_opt xs n"

definition isWhiteSpace :: "char \<Rightarrow> bool" where
  "isWhiteSpace c = ((of_char c :: nat) \<in> {9, 10, 11, 12, 13, 32, 160})"

definition digitValue :: "char \<Rightarrow> nat option" where
  "digitValue c =
     (let n = (of_char c :: nat) in
      if 48 \<le> n \<and> n \<le> 57 then Some (n - 48)
      else if 97 \<le> n \<and> n \<le> 122 then Some (n - 87)
      else if 65 \<le> n \<and> n \<le> 90 then Some (n - 55)
      else None)"

text \<open>The values of the longest prefix of \<open>s\<close> made of digits of radix \<open>R\<close>.\<close>

fun radixDigits :: "nat \<Rightarrow> string \<Rightarrow> nat list" where
  "radixDigits R [] = []"
| "radixDigits R (c # cs) =
     (case digitValue c of
        None \<Rightarrow> []
      | Some d \<Rightarrow> if d < R then d # radixDigits R cs else [])"

text \<open>
  \<^verbatim>\<open>parseInt(string)\<close> with no radix: leading white space is skipped, a sign is read,
  a prefix \<^verbatim>\<open>0x\<close> selects radix 16, and the longest run of digits is the value; NaN
  when that run is empty.
\<close>

definition parseInt :: "string \<Rightarrow> int option" where
  "parseInt inputString =
     (let S = dropWhile isWhiteSpace inputString;
          sign = (if take 1 S = ''-'' then - 1 else (1::int));
          S1 = (if take 1 S = ''+'' \<or> take 1 S = ''-'' then drop 1 S else S);
          hex = (take 2 S1 = ''0x'' \<or> take 2 S1 = ''0X'');
          R = (if hex then 16 else 10);
          S2 = (if hex then drop 2 S1 else S1);
          Z = radixDigits R S2
      in if Z = [] then None
         else Some (sign * int (foldl (\<lambda>a d. a * R + d) 0 Z)))"

text \<open>An argument that is \<^verbatim>\<open>undefined\<close> is first converted to the string "undefined".\<close>

definition parseInt_arg :: "string option \<Rightarrow> int option" where
  "parseInt_arg a = (case a of None \<Rightarrow> parseInt ''undefined'' | Some s \<Rightarrow> parseInt s)"

section \<open>Late cutoff\<close>

datatype status = present | late | absent

text \<open>
  Lines 110--114 of the route \<^verbatim>\<open>POST /api/mark-attendance\<close>:
  \<^verbatim>\<open>
    const now = new Date();
    const cutoffTime = new Date(now);
    const [cutoffHours, cutoffMinutes] = settings.lateCutoffTime.split(':');
    cutoffTime.setHours(parseInt(cutoffHours), parseInt(cutoffMinutes), 0, 0);
    const status = now > cutoffTime ? 'late' : 'present';
  \<close>
\<close>

definition cutoff_time :: "int \<Rightarrow> int \<Rightarrow> string \<Rightarrow> int option" where
  "cutoff_time tz now lateCutoffTime =
     (let parts = split_on CHR '':'' lateCutoffTime;
          cutoffHours = nth_opt parts 0;
          cutoffMinutes = nth_opt parts 1
      in setHours tz (Some now) (parseInt_arg cutoffHours) (parseInt_arg cutoffMinutes)
           (Some 0) (Some 0))"

definition determine_status :: "int \<Rightarrow> int \<Rightarrow> string \<Rightarrow> status" where
  "determine_status tz now lateCutoffTime =
     (if date_gt (Some now) (cutoff_time tz now lateCutoffTime) then late else present)"


section \<open>The document store\<close>

text \<open>
  The collections the routes read and write. Object identifiers of students, courses and
  classes are strings as the requests carry them (a missing field is the empty string:
  both are falsy); an attendance record's \<^verbatim>\<open>_id\<close> is a number drawn from a counter, so
  that a fresh record never reuses one.

  The Mongoose schemas (\<^verbatim>\<open>../models\<close>) are not among the sources. What a
  definition takes from them is said where it does.
\<close>

type_synonym oid = string

text \<open>
  A JavaScript number is an IEEE 754 double: a finite value, NaN or an infinity. A
  finite double is the real it denotes; \<open>fl\<close> rounds a real to the nearest double, ties
  to the even significand, as every arithmetic operation on doubles does with its exact
  result. The doubles are the multiples of \<open>2^-1074\<close> below \<open>2^-1021\<close> and, above,
  the reals with a significand of 53 bits; a result that rounds to \<open>2^1024\<close> or more
  is an infinity, and one that rounds below the smallest double is zero.

  Zero is unsigned. The sign of a zero can only show in a division by it, and the one
  divisor of the routes is a square root of a sum that starts at \<open>+0\<close>, which is never
  \<open>-0\<close>. \<^verbatim>\<open>Math.sqrt\<close> is the correctly rounded square root of IEEE 754.
\<close>

datatype jsnum = Num real | NaN | PosInf | NegInf

definition pow2 :: "nat \<Rightarrow> real" where
  "pow2 n = 2 ^ n"

text \<open>The nearest integer, the even one of two that are equally near.\<close>

definition rne :: "real \<Rightarrow> int" where
  "rne x = (let f = \<lfloor>x\<rfloor>; d = x - of_int f in
            if d < 1 / 2 then f else if d > 1 / 2 then f + 1 else if even f then f else f + 1)"

text \<open>
  For \<open>A\<close> a magnitude in units of \<open>2^-1074\<close>: the largest \<open>s\<close>, at most \<open>k\<close>,
  with \<open>2^(52+s) \<le> A\<close>, or 0 when there is none. The doubles near \<open>A\<close> are then
  \<open>2^s\<close> units apart.
\<close>

fun binade :: "nat \<Rightarrow> real \<Rightarrow> nat" where
  "binade 0 A = 0"
| "binade (Suc k) A = (if pow2 (53 + k) \<le> A then Suc k else binade k A)"

definition fl :: "real \<Rightarrow> jsnum" where
  "fl x = (let A = \<bar>x\<bar> * pow2 1074; s = binade 2046 A; r = rne (A / pow2 s) in
           if pow2 2098 \<le> of_int r * pow2 s then (if x > 0 then PosInf else NegInf)
           else Num (sgn x * (of_int r * pow2 s / pow2 1074)))"

definition inf_of_sign :: "real \<Rightarrow> jsnum" where
  "inf_of_sign s = (if s > 0 then PosInf else if s < 0 then NegInf else NaN)"

fun js_mul :: "jsnum \<Rightarrow> jsnum \<Rightarrow> jsnum" where
  "js_mul (Num a) (Num b) = fl (a * b)"
| "js_mul (Num a) PosInf = inf_of_sign a"
| "js_mul (Num a) NegInf = inf_of_sign (- a)"
| "js_mul PosInf (Num b) = inf_of_sign b"
| "js_mul NegInf (Num b) = inf_of_sign (- b)"
| "js_mul PosInf PosInf = PosInf"
| "js_mul PosInf NegInf = NegInf"
| "js_mul NegInf PosInf = NegInf"
| "js_mul NegInf NegInf = PosInf"
| "js_mul NaN _ = NaN"
| "js_mul _ NaN = NaN"

fun js_add :: "jsnum \<Rightarrow> jsnum \<Rightarrow> jsnum" where
  "js_add (Num a) (Num b) = fl (a + b)"
| "js_add (Num a) PosInf = PosInf"
| "js_add (Num a) NegInf = NegInf"
| "js_add PosInf (Num b) = PosInf"
| "js_add NegInf (Num b) = NegInf"
| "js_add PosInf PosInf = PosInf"
| "js_add NegInf NegInf = NegInf"
| "js_add PosInf NegInf = NaN"
| "js_add NegInf PosInf = NaN"
| "js_add NaN _ = NaN"
| "js_add _ NaN = NaN"

fun js_neg :: "jsnum \<Rightarrow> jsnum" where
  "js_neg (Num a) = Num (- a)"
| "js_neg PosInf = NegInf"
| "js_neg NegInf = PosInf"
| "js_neg NaN = NaN"

text \<open>\<^verbatim>\<open>a - b\<close> is \<^verbatim>\<open>a + (-b)\<close>.\<close>

definition js_sub :: "jsnum \<Rightarrow> jsnum \<Rightarrow> jsnum" where
  "js_sub a b = js_add a (js_neg b)"

fun js_div :: "jsnum \<Rightarrow> jsnum \<Rightarrow> jsnum" where
  "js_div (Num a) (Num b) = (if b = 0 then inf_of_sign a else fl (a / b))"
| "js_div (Num a) PosInf = Num 0"
| "js_div (Num a) NegInf = Num 0"
| "js_div PosInf (Num b) = (if b < 0 then NegInf else PosInf)"
| "js_div NegInf (Num b) = (if b < 0 then PosInf else NegInf)"
| "js_div PosInf PosInf = NaN"
| "js_div PosInf NegInf = NaN"
| "js_div NegInf PosInf = NaN"
| "js_div NegInf NegInf = NaN"
| "js_div NaN _ = NaN"
| "js_div _ NaN = NaN"

fun js_sqrt :: "jsnum \<Rightarrow> jsnum" where
  "js_sqrt (Num a) = (if a < 0 then NaN else fl (sqrt a))"
| "js_sqrt PosInf = PosInf"
| "js_sqrt NegInf = NaN"
| "js_sqrt NaN = NaN"

record student =
  student_id :: oid
  fullName :: string
  rollNo :: string
  student_classRef :: oid
  isEnrolled :: bool
  faceDescriptor :: "jsnum list option"
  lastDescriptorUpdate :: "int option"
  descriptorUpdateCount :: nat

datatype marked_by = facial_recognition | manual | system

record attendance =
  att_id :: nat
  studentRef :: oid
  courseRef :: oid
  classRef :: oid
  att_status :: status
  confidenceScore :: real
  markedBy :: marked_by
  sessionDate :: int
  timestamp :: int

record settings =
  settings_userId :: oid
  settings_userModel :: string
  lateCutoffTime :: string

record db =
  students :: "student list"
  attendances :: "attendance list"
  settings_docs :: "settings list"
  next_id :: nat

text \<open>The part of \<^verbatim>\<open>req.session\<close> the routes use.\<close>

record session =
  userId :: oid
  userModel :: string
  cachedSettings :: "settings option"

text \<open>
  The environment: the server's time zone offset, and the cutoff a settings document
  created without one receives (the default of the Settings schema, which is not among
  the sources).
\<close>

record config =
  cfg_tz :: int
  cfg_default_cutoff :: string

text \<open>
  An error response: the HTTP status, the \<^verbatim>\<open>error\<close> text and the
  \<^verbatim>\<open>alreadyMarked\<close> flag (\<open>False\<close> when the body has no such field).
\<close>

record failure =
  http_status :: nat
  error_text :: string
  alreadyMarked :: bool

definition bad_request :: "string \<Rightarrow> failure" where
  "bad_request msg = \<lparr>http_status = 400, error_text = msg, alreadyMarked = False\<rparr>"

definition already_marked :: "string \<Rightarrow> failure" where
  "already_marked msg = \<lparr>http_status = 400, error_text = msg, alreadyMarked = True\<rparr>"

definition not_found :: "string \<Rightarrow> failure" where
  "not_found msg = \<lparr>http_status = 404, error_text = msg, alreadyMarked = False\<rparr>"

definition server_error :: "string \<Rightarrow> failure" where
  "server_error msg = \<lparr>http_status = 500, error_text = msg, alreadyMarked = False\<rparr>"

text \<open>
  \<^verbatim>\<open>const sessionDate = new Date(); sessionDate.setHours(0, 0, 0, 0);\<close>
  The clock reading \<open>now\<close> is a valid time value, and so is the midnight before it.
  Every \<^verbatim>\<open>new Date()\<close> of one request reads the same instant \<open>now\<close>.
\<close>

definition session_date :: "int \<Rightarrow> int \<Rightarrow> int" where
  "session_date tz now = UTC tz (Day (LocalTime tz now) * msPerDay)"

text \<open>
  \<^verbatim>\<open>Attendance.findOne({ studentRef, courseRef, sessionDate })\<close>
\<close>

definition find_attendance :: "db \<Rightarrow> oid \<Rightarrow> oid \<Rightarrow> int \<Rightarrow> attendance option" where
  "find_attendance d sid cid sd =
     List.find (\<lambda>a. studentRef a = sid \<and> courseRef a = cid \<and> sessionDate a = sd) (attendances d)"

definition find_student :: "db \<Rightarrow> oid \<Rightarrow> student option" where
  "find_student d sid = List.find (\<lambda>s. student_id s = sid) (students d)"

text \<open>
  Modelled from the spec: \<^verbatim>\<open>Attendance.create\<close> of the Attendance model, whose schema is
  not among the sources. Following section 9 of the specification (the one-record-per-key
  invariant was "originally enforced only by a best-effort existence check"), the
  collection has no uniqueness constraint of its own: a create appends the document
  under a fresh \<^verbatim>\<open>_id\<close>.
\<close>

definition create_attendance ::
  "db \<Rightarrow> oid \<Rightarrow> oid \<Rightarrow> oid \<Rightarrow> status \<Rightarrow> real \<Rightarrow> marked_by \<Rightarrow> int \<Rightarrow> int \<Rightarrow> attendance \<times> db" where
  "create_attendance d sid cid clid st conf by sd ts =
     (let a = \<lparr>att_id = next_id d, studentRef = sid, courseRef = cid, classRef = clid,
                att_status = st, confidenceScore = conf, markedBy = by,
                sessionDate = sd, timestamp = ts\<rparr>
      in (a, d\<lparr>attendances := attendances d @ [a], next_id := Suc (next_id d)\<rparr>))"

text \<open>
  Lines 96--107: the settings of the logged-in user, from the session's cache, else from
  the collection, else created with the defaults; the cache is filled.
\<close>

definition load_settings :: "config \<Rightarrow> session \<Rightarrow> db \<Rightarrow> settings \<times> session \<times> db" where
  "load_settings cfg sess d =
     (let um = (if userModel sess = [] then ''Teacher'' else userModel sess);
          uid = userId sess
      in case cachedSettings sess of
           Some s \<Rightarrow> (s, sess, d)
         | None \<Rightarrow>
             (case List.find (\<lambda>s. settings_userId s = uid \<and> settings_userModel s = um)
                     (settings_docs d) of
                Some s \<Rightarrow> (s, sess\<lparr>cachedSettings := Some s\<rparr>, d)
              | None \<Rightarrow>
                  (let s = \<lparr>settings_userId = uid, settings_userModel = um,
                             lateCutoffTime = cfg_default_cutoff cfg\<rparr>
                   in (s, sess\<lparr>cachedSettings := Some s\<rparr>,
                       d\<lparr>settings_docs := settings_docs d @ [s]\<rparr>))))"


section \<open>Refreshing a stored face descriptor\<close>

text \<open>
  Lines 144--153, inside the deferred task of \<^verbatim>\<open>POST /api/mark-attendance\<close>:
  \<^verbatim>\<open>
    const alpha = 0.15;
    const updatedDescriptor = existingDescriptor.map((oldVal, i) => {
      return oldVal * (1 - alpha) + faceDescriptor[i] * alpha;
    });
    const magnitude = Math.sqrt(updatedDescriptor.reduce((sum, val) => sum + val * val, 0));
    const normalizedDescriptor = updatedDescriptor.map(val => val / magnitude);
  \<close>
  The weight is a parameter of the definitions, a double; the route fixes it to
  \<open>alpha\<close>, the double nearest to 0.15, which the literal denotes.
  An index beyond the observed array reads \<^verbatim>\<open>undefined\<close>, which is NaN in arithmetic.
\<close>

definition alpha :: real where
  "alpha = 5404319552844595 / pow2 55"

definition updatedDescriptor :: "real \<Rightarrow> jsnum list \<Rightarrow> jsnum list \<Rightarrow> jsnum list" where
  "updatedDescriptor w existingDescriptor observed =
     map (\<lambda>(oldVal, i).
            js_add (js_mul oldVal (js_sub (Num 1) (Num w)))
                   (js_mul (case nth_opt observed i of None \<Rightarrow> NaN | Some v \<Rightarrow> v) (Num w)))
         (zip existingDescriptor [0..<length existingDescriptor])"

definition magnitude :: "jsnum list \<Rightarrow> jsnum" where
  "magnitude v = js_sqrt (foldl (\<lambda>sum val. js_add sum (js_mul val val)) (Num 0) v)"

definition normalizedDescriptor :: "real \<Rightarrow> jsnum list \<Rightarrow> jsnum list \<Rightarrow> jsnum list" where
  "normalizedDescriptor w existingDescriptor observed =
     (let u = updatedDescriptor w existingDescriptor observed
      in map (\<lambda>val. js_div val (magnitude u)) u)"

text \<open>
  The deferred task: what \<^verbatim>\<open>setImmediate\<close> is handed. It keeps the descriptor read
  with the student and the observed one.
\<close>

record descriptor_task =
  task_studentId :: oid
  task_existing :: "jsnum list"
  task_observed :: "jsnum list"





section \<open>The routes\<close>

subsection \<open>POST /api/mark-attendance\<close>

text \<open>
  The request body. The confidence score is a number or is missing (\<open>None\<close>, which also
  stands for a falsy value that is not a number); the face descriptor is an array of
  numbers or is missing or not an array (\<open>None\<close>).
\<close>

record mark_request =
  m_studentId :: oid
  m_courseId :: oid
  m_classId :: oid
  m_confidenceScore :: "real option"
  m_faceDescriptor :: "jsnum list option"

text \<open>\<^verbatim>\<open>confidenceScore || 0\<close>\<close>

definition or_zero :: "real option \<Rightarrow> real" where
  "or_zero c = (case c of None \<Rightarrow> 0 | Some x \<Rightarrow> if x = 0 then 0 else x)"

text \<open>
  \<^verbatim>\<open>confidenceScore >= 0.6\<close>, false for a missing score. The literal denotes the
  double nearest to 0.6.
\<close>

definition at_least_threshold :: "real option \<Rightarrow> bool" where
  "at_least_threshold c =
     (case c of None \<Rightarrow> False | Some x \<Rightarrow> x \<ge> 5404319552844595 / pow2 53)"

text \<open>Lines 137--140: whether the descriptor refresh is scheduled, and with what.\<close>

definition schedule_task :: "mark_request \<Rightarrow> student \<Rightarrow> descriptor_task option" where
  "schedule_task req st =
     (case m_faceDescriptor req of
        None \<Rightarrow> None
      | Some fd \<Rightarrow>
          if length fd = 128 \<and> at_least_threshold (m_confidenceScore req)
          then (case faceDescriptor st of
                  None \<Rightarrow> None
                | Some existing \<Rightarrow>
                    if length existing = 128
                    then Some \<lparr>task_studentId = m_studentId req, task_existing = existing,
                                task_observed = fd\<rparr>
                    else None)
          else None)"

text \<open>
  The handler, in the order of the source: required fields, duplicate check, settings,
  status, student lookup, creation of the record, scheduling of the refresh. It returns
  the response, the store, the session and the task handed to \<^verbatim>\<open>setImmediate\<close>.
\<close>

definition mark_attendance ::
  "config \<Rightarrow> int \<Rightarrow> session \<Rightarrow> mark_request \<Rightarrow> db \<Rightarrow>
     (failure + attendance) \<times> db \<times> session \<times> descriptor_task option" where
  "mark_attendance cfg now sess req d =
     (if m_studentId req = [] \<or> m_courseId req = [] \<or> m_classId req = []
      then (Inl (bad_request ''Missing required fields''), d, sess, None)
      else
        (let sd = session_date (cfg_tz cfg) now in
         (case find_attendance d (m_studentId req) (m_courseId req) sd of
            Some existing \<Rightarrow> (Inl (already_marked ''Attendance already marked''), d, sess, None)
          | None \<Rightarrow>
              (case load_settings cfg sess d of (st, sess1, d1) \<Rightarrow>
                 (let status = determine_status (cfg_tz cfg) now (lateCutoffTime st) in
                  (case find_student d1 (m_studentId req) of
                     None \<Rightarrow> (Inl (not_found ''Student not found''), d1, sess1, None)
                   | Some stu \<Rightarrow>
                       (case create_attendance d1 (m_studentId req) (m_courseId req)
                               (m_classId req) status (or_zero (m_confidenceScore req))
                               facial_recognition sd now of
                          (a, d2) \<Rightarrow> (Inr a, d2, sess1, schedule_task req stu))))))))"

subsection \<open>POST /api/manual-mark-attendance\<close>

record manual_request =
  mm_studentId :: oid
  mm_courseId :: oid
  mm_classId :: oid
  mm_status :: string

text \<open>\<^verbatim>\<open>['present', 'late', 'absent'].includes(status)\<close>\<close>

definition status_of_string :: "string \<Rightarrow> status option" where
  "status_of_string s =
     (if s = ''present'' then Some present
      else if s = ''late'' then Some late
      else if s = ''absent'' then Some absent
      else None)"

text \<open>
  The record is created before the student is read for the response; when no student
  has the identifier, reading \<^verbatim>\<open>student.fullName\<close> throws and the response is the 500
  of the \<^verbatim>\<open>catch\<close>, the record staying.
\<close>

definition manual_mark_attendance ::
  "config \<Rightarrow> int \<Rightarrow> manual_request \<Rightarrow> db \<Rightarrow> (failure + attendance) \<times> db" where
  "manual_mark_attendance cfg now req d =
     (if mm_studentId req = [] \<or> mm_courseId req = [] \<or> mm_classId req = [] \<or> mm_status req = []
      then (Inl (bad_request ''Missing required fields''), d)
      else (case status_of_string (mm_status req) of
        None \<Rightarrow> (Inl (bad_request ''Invalid status. Must be present, late, or absent''), d)
      | Some status \<Rightarrow>
          (let sd = session_date (cfg_tz cfg) now in
           (case find_attendance d (mm_studentId req) (mm_courseId req) sd of
              Some existing \<Rightarrow>
                (Inl (already_marked ''Attendance already marked for this student''), d)
            | None \<Rightarrow>
                (case create_attendance d (mm_studentId req) (mm_courseId req) (mm_classId req)
                        status (if status = absent then 0 else 1) manual sd now of
                   (a, d1) \<Rightarrow>
                     (case find_student d1 (mm_studentId req) of
                        None \<Rightarrow>
                          (Inl (server_error ''Cannot read properties of null''), d1)
                      | Some stu \<Rightarrow> (Inr a, d1)))))))"


subsection \<open>GET /api/unmarked-students and POST /api/end-session\<close>

text \<open>\<^verbatim>\<open>.select('_id fullName rollNo')\<close>: the fields of a student the queries keep.\<close>

record student_info =
  info_id :: oid
  info_fullName :: string
  info_rollNo :: string

definition select_info :: "student \<Rightarrow> student_info" where
  "select_info s = \<lparr>info_id = student_id s, info_fullName = fullName s, info_rollNo = rollNo s\<rparr>"

text \<open>
  \<^verbatim>\<open>.select('studentRef')\<close>: an attendance document read with this projection has its
  \<^verbatim>\<open>_id\<close> and its \<^verbatim>\<open>studentRef\<close>; every other field, the status among them, is
  \<^verbatim>\<open>undefined\<close> (\<open>None\<close>).
\<close>

record attendance_projection =
  proj_id :: nat
  proj_studentRef :: oid
  proj_status :: "status option"

definition select_studentRef :: "attendance \<Rightarrow> attendance_projection" where
  "select_studentRef a = \<lparr>proj_id = att_id a, proj_studentRef = studentRef a, proj_status = None\<rparr>"

text \<open>
  \<^verbatim>\<open>Student.find({ classRef: classId, isEnrolled: true })\<close> and
  \<^verbatim>\<open>Attendance.find({ courseRef, classRef, sessionDate })\<close>, with their projections.
\<close>

definition allStudents :: "db \<Rightarrow> oid \<Rightarrow> student_info list" where
  "allStudents d clid =
     map select_info (filter (\<lambda>s. student_classRef s = clid \<and> isEnrolled s) (students d))"

definition markedAttendance :: "db \<Rightarrow> oid \<Rightarrow> oid \<Rightarrow> int \<Rightarrow> attendance_projection list" where
  "markedAttendance d cid clid sd =
     map select_studentRef
       (filter (\<lambda>a. courseRef a = cid \<and> classRef a = clid \<and> sessionDate a = sd) (attendances d))"

definition markedStudentIds :: "attendance_projection list \<Rightarrow> oid set" where
  "markedStudentIds marked = set (map proj_studentRef marked)"

definition unmarkedStudents :: "student_info list \<Rightarrow> attendance_projection list \<Rightarrow> student_info list" where
  "unmarkedStudents all marked = filter (\<lambda>s. info_id s \<notin> markedStudentIds marked) all"



text \<open>The body of \<^verbatim>\<open>POST /api/end-session\<close>; \<^verbatim>\<open>markAbsent\<close> is true when missing.\<close>

record end_request =
  es_classId :: oid
  es_courseId :: oid
  es_markAbsent :: "bool option"

record end_response =
  e_totalStudents :: nat
  e_presentCount :: nat
  e_absentCount :: nat
  e_unmarkedStudents :: "student_info list"

text \<open>
  \<^verbatim>\<open>Attendance.insertMany(absentRecords)\<close>: one absent record for each unmarked
  student, in order.
\<close>

definition insert_absent :: "oid \<Rightarrow> oid \<Rightarrow> int \<Rightarrow> int \<Rightarrow> db \<Rightarrow> student_info \<Rightarrow> db" where
  "insert_absent cid clid sd ts d s =
     snd (create_attendance d (info_id s) cid clid absent 0 system sd ts)"

definition insertMany_absent :: "oid \<Rightarrow> oid \<Rightarrow> int \<Rightarrow> int \<Rightarrow> student_info list \<Rightarrow> db \<Rightarrow> db" where
  "insertMany_absent cid clid sd ts unmarked d = foldl (insert_absent cid clid sd ts) d unmarked"

definition end_session :: "config \<Rightarrow> int \<Rightarrow> end_request \<Rightarrow> db \<Rightarrow> (failure + end_response) \<times> db" where
  "end_session cfg now req d =
     (if es_classId req = [] \<or> es_courseId req = []
      then (Inl (bad_request ''Class ID and Course ID are required''), d)
      else
        (let markAbsent = (case es_markAbsent req of None \<Rightarrow> True | Some b \<Rightarrow> b);
             sd = session_date (cfg_tz cfg) now;
             all = allStudents d (es_classId req);
             marked = markedAttendance d (es_courseId req) (es_classId req) sd;
             unmarked = unmarkedStudents all marked;
             inserting = (markAbsent \<and> length unmarked > 0);
             d1 = (if inserting
                   then insertMany_absent (es_courseId req) (es_classId req) sd now unmarked d
                   else d);
             markedAbsentCount = (if inserting then length unmarked else 0)
         in (Inr \<lparr>e_totalStudents = length all,
                  e_presentCount = length (filter (\<lambda>a. proj_status a \<noteq> Some absent) marked),
                  e_absentCount = markedAbsentCount,
                  e_unmarkedStudents = unmarked\<rparr>, d1)))"

subsection \<open>DELETE /api/cancel-attendance/:attendanceId\<close>

text \<open>\<^verbatim>\<open>Attendance.findByIdAndDelete(attendanceId)\<close>: the first document of that id goes.\<close>

fun delete_first :: "nat \<Rightarrow> attendance list \<Rightarrow> attendance list" where
  "delete_first i [] = []"
| "delete_first i (a # as) = (if att_id a = i then as else a # delete_first i as)"

definition cancel_attendance :: "nat \<Rightarrow> db \<Rightarrow> (failure + attendance) \<times> db" where
  "cancel_attendance attendanceId d =
     (case List.find (\<lambda>a. att_id a = attendanceId) (attendances d) of
        None \<Rightarrow> (Inl (not_found ''Attendance record not found''), d)
      | Some deletedAttendance \<Rightarrow>
          (Inr deletedAttendance,
           d\<lparr>attendances := delete_first attendanceId (attendances d)\<rparr>))"

section \<open>Notions used by the statements\<close>

text \<open>
  A well-formed cutoff is \<^verbatim>\<open>HH:MM\<close> or \<^verbatim>\<open>H:MM\<close> in decimal digits, with the hour below
  24 and the minute below 60. The cutoff instant of an event is that hour and minute of
  the event's own calendar day, seconds zeroed.
\<close>

definition digit_char :: "nat \<Rightarrow> char" where
  "digit_char d = ''0123456789'' ! d"

definition two_digits :: "nat \<Rightarrow> string" where
  "two_digits n = [digit_char (n div 10), digit_char (n mod 10)]"

definition cutoff_instant :: "int \<Rightarrow> int \<Rightarrow> nat \<Rightarrow> nat \<Rightarrow> int" where
  "cutoff_instant tz now h m = session_date tz now + int h * msPerHour + int m * msPerMinute"

definition well_formed_cutoff :: "nat \<Rightarrow> nat \<Rightarrow> string \<Rightarrow> bool" where
  "well_formed_cutoff h m c =
     (h < 24 \<and> m < 60 \<and>
      (c = two_digits h @ '':'' @ two_digits m \<or> (h < 10 \<and> c = digit_char h # '':'' @ two_digits m)))"

text \<open>
  The hour and the minute \<^verbatim>\<open>parseInt\<close> reads from a cutoff string (\<open>None\<close>: NaN).
\<close>

definition cutoffHours :: "string \<Rightarrow> int option" where
  "cutoffHours c = parseInt_arg (nth_opt (split_on CHR '':'' c) 0)"

definition cutoffMinutes :: "string \<Rightarrow> int option" where
  "cutoffMinutes c = parseInt_arg (nth_opt (split_on CHR '':'' c) 1)"

text \<open>The settings document a request works with.\<close>

definition settings_in_use :: "config \<Rightarrow> session \<Rightarrow> db \<Rightarrow> settings" where
  "settings_in_use cfg sess d = fst (load_settings cfg sess d)"

subsection \<open>A small class for the examples\<close>

text \<open>
  One student enrolled in class B, no attendance yet; a server five hours ahead of UTC;
  a teacher whose cached settings carry a given cutoff; 11:00 local time on day 20000.
\<close>

definition ex_student :: student where
  "ex_student = \<lparr>student_id = ''s1'', fullName = ''Ada'', rollNo = ''R1'',
     student_classRef = ''classB'', isEnrolled = True, faceDescriptor = None,
     lastDescriptorUpdate = None, descriptorUpdateCount = 0\<rparr>"

definition ex_db :: db where
  "ex_db = \<lparr>students = [ex_student], attendances = [], settings_docs = [], next_id = 0\<rparr>"

definition ex_cfg :: config where
  "ex_cfg = \<lparr>cfg_tz = 18000000, cfg_default_cutoff = ''09:00''\<rparr>"

definition ex_session :: "string \<Rightarrow> session" where
  "ex_session cutoff = \<lparr>userId = ''t1'', userModel = ''Teacher'',
     cachedSettings = Some \<lparr>settings_userId = ''t1'', settings_userModel = ''Teacher'',
       lateCutoffTime = cutoff\<rparr>\<rparr>"

definition ex_now :: int where
  "ex_now = 20000 * 86400000 + 11 * 3600000 - 18000000"

definition ex_day :: int where
  "ex_day = 20000 * 86400000 - 18000000"

definition ex_mark_request :: "real option \<Rightarrow> mark_request" where
  "ex_mark_request conf = \<lparr>m_studentId = ''s1'', m_courseId = ''c1'', m_classId = ''classB'',
     m_confidenceScore = conf, m_faceDescriptor = None\<rparr>"

text \<open>
  Records of that student for course c1 today, manual requests for them, and the class
  after one manual mark.
\<close>

definition ex_record :: "nat \<Rightarrow> oid \<Rightarrow> status \<Rightarrow> real \<Rightarrow> marked_by \<Rightarrow> attendance" where
  "ex_record i clid st conf by = \<lparr>att_id = i, studentRef = ''s1'', courseRef = ''c1'',
     classRef = clid, att_status = st, confidenceScore = conf, markedBy = by,
     sessionDate = ex_day, timestamp = ex_now\<rparr>"

definition ex_manual_request :: "oid \<Rightarrow> string \<Rightarrow> manual_request" where
  "ex_manual_request clid st = \<lparr>mm_studentId = ''s1'', mm_courseId = ''c1'', mm_classId = clid,
     mm_status = st\<rparr>"

definition ex_db_marked :: db where
  "ex_db_marked = ex_db\<lparr>attendances := [ex_record 0 ''classB'' present 1 manual], next_id := 1\<rparr>"

text \<open>
  Ending the session of class B for course c1, and the class after that: its one
  student has the absent record the route created.
\<close>

definition ex_end_request :: end_request where
  "ex_end_request = \<lparr>es_classId = ''classB'', es_courseId = ''c1'', es_markAbsent = Some True\<rparr>"

definition ex_db_ended :: db where
  "ex_db_ended = ex_db\<lparr>attendances := [ex_record 0 ''classB'' absent 0 system], next_id := 1\<rparr>"

subsection \<open>Sequences of operations\<close>

text \<open>
  The four operations on the ledger, each served at its own instant; a run applies them
  in order to a store and keeps the store (the responses are dropped). The key of a
  record is its student, course and session date.
\<close>

datatype operation =
    MarkBiometric session mark_request
  | MarkManual manual_request
  | Finalize end_request
  | Cancel nat

fun apply_operation :: "config \<Rightarrow> int \<Rightarrow> operation \<Rightarrow> db \<Rightarrow> db" where
  "apply_operation cfg now (MarkBiometric sess req) d = fst (snd (mark_attendance cfg now sess req d))"
| "apply_operation cfg now (MarkManual req) d = snd (manual_mark_attendance cfg now req d)"
| "apply_operation cfg now (Finalize req) d = snd (end_session cfg now req d)"
| "apply_operation cfg now (Cancel i) d = snd (cancel_attendance i d)"

fun run :: "config \<Rightarrow> (int \<times> operation) list \<Rightarrow> db \<Rightarrow> db" where
  "run cfg [] d = d"
| "run cfg ((now, op) # ops) d = run cfg ops (apply_operation cfg now op d)"

definition record_key :: "attendance \<Rightarrow> oid \<times> oid \<times> int" where
  "record_key a = (studentRef a, courseRef a, sessionDate a)"

definition one_record_per_key :: "db \<Rightarrow> bool" where
  "one_record_per_key d = distinct (map record_key (attendances d))"

definition records_for :: "db \<Rightarrow> oid \<Rightarrow> oid \<Rightarrow> int \<Rightarrow> attendance list" where
  "records_for d sid cid sd =
     filter (\<lambda>a. studentRef a = sid \<and> courseRef a = cid \<and> sessionDate a = sd) (attendances d)"

subsection \<open>The fusion of the specification\<close>

text \<open>
  Section 4.2 of the specification, on real vectors: the blend
  \<open>existing[i] * (1 - weight) + observed[i] * weight\<close> in each dimension, and the L2 norm
  (the square root of the sum of the squares).
\<close>

definition spec_blend :: "real \<Rightarrow> real list \<Rightarrow> real list \<Rightarrow> real list" where
  "spec_blend w existing observed = map (\<lambda>(e, ob). e * (1 - w) + ob * w) (zip existing observed)"

definition l2_norm :: "real list \<Rightarrow> real" where
  "l2_norm v = sqrt (sum_list (map (\<lambda>x. x * x) v))"

text \<open>
  A stored unit descriptor of dimension 128 and an observed one whose first entry is
  \<open>2^600\<close>; a student whose stored descriptor is the zero vector, and the refresh
  task for an observed zero vector.
\<close>

definition ex_unit :: "real list" where
  "ex_unit = 1 # replicate 127 0"

definition ex_huge :: "real list" where
  "ex_huge = pow2 600 # replicate 127 0"








subsection \<open>Invariants of the store\<close>

text \<open>
  The ids of the attendance records are distinct and below the counter. Every record
  of a student of the store carries the class the student belongs to. An operation
  names the student's own class when its marking request does so (ending a session and
  cancelling name no student).
\<close>

definition ids_fresh :: "db \<Rightarrow> bool" where
  "ids_fresh d =
     (distinct (map att_id (attendances d)) \<and> list_all (\<lambda>a. att_id a < next_id d) (attendances d))"

definition class_of_student :: "db \<Rightarrow> oid \<Rightarrow> oid \<Rightarrow> bool" where
  "class_of_student d sid clid =
     list_all (\<lambda>s. student_id s \<noteq> sid \<or> student_classRef s = clid) (students d)"

definition class_consistent :: "db \<Rightarrow> bool" where
  "class_consistent d = list_all (\<lambda>a. class_of_student d (studentRef a) (classRef a)) (attendances d)"

fun names_own_class :: "db \<Rightarrow> operation \<Rightarrow> bool" where
  "names_own_class d (MarkBiometric sess req) = class_of_student d (m_studentId req) (m_classId req)"
| "names_own_class d (MarkManual req) = class_of_student d (mm_studentId req) (mm_classId req)"
| "names_own_class d (Finalize req) = True"
| "names_own_class d (Cancel i) = True"

definition ledger_invariant :: "db \<Rightarrow> bool" where
  "ledger_invariant d =
     (one_record_per_key d \<and> class_consistent d \<and> ids_fresh d
      \<and> distinct (map student_id (students d)))"


section \<open>Rounding to a double\<close>

text \<open>Powers of two, kept folded in the proofs.\<close>

lemma pow2_pos [simp]: "0 < pow2 n" by (simp add: pow2_def)
lemma pow2_nonneg [simp]: "0 \<le> pow2 n" by (simp add: pow2_def)
lemma pow2_not_le0 [simp]: "\<not> pow2 n \<le> 0" by (simp add: pow2_def not_le)
lemma pow2_ne0 [simp]: "pow2 n \<noteq> 0" by (simp add: pow2_def)
lemma pow2_add: "pow2 (m + n) = pow2 m * pow2 n" by (simp add: pow2_def power_add)
lemma pow2_le [simp]: "pow2 m \<le> pow2 n \<longleftrightarrow> m \<le> n" by (simp add: pow2_def)
lemma pow2_less [simp]: "pow2 m < pow2 n \<longleftrightarrow> m < n" by (simp add: pow2_def)
lemma pow2_0: "pow2 0 = 1" by (simp add: pow2_def)
lemma pow2_div': "m \<le> n \<Longrightarrow> pow2 m / pow2 n = 1 / pow2 (n - m)"
  using pow2_add[of m "n - m"] by (simp add: field_simps)

text \<open>Rounding to the nearest integer is off by at most one half.\<close>

lemma rne_err: "\<bar>of_int (rne x) - x\<bar> \<le> 1 / 2"
  by (auto simp: rne_def Let_def)

lemma rne_near:
  assumes "of_int z - 1 / 2 < x" "x < of_int z + 1 / 2"
  shows "rne x = z"
proof -
  have "\<bar>of_int (rne x) - of_int z :: real\<bar> < 1" using rne_err[of x] assms by linarith
  then have "\<bar>rne x - z\<bar> < 1" by (metis of_int_1 of_int_abs of_int_diff of_int_less_iff)
  then show ?thesis by simp
qed

lemma rne_ge: "of_int m \<le> x \<Longrightarrow> m \<le> rne x"
proof -
  assume "of_int m \<le> x"
  then have "m \<le> \<lfloor>x\<rfloor>" by (simp add: le_floor_iff)
  moreover have "\<lfloor>x\<rfloor> \<le> rne x" by (simp add: rne_def Let_def)
  ultimately show ?thesis by simp
qed

text \<open>The binade of a magnitude.\<close>

lemma binade_le: "binade k A \<le> k"
  by (induction k) auto

lemma binade_lower: "0 < binade k A \<Longrightarrow> pow2 (52 + binade k A) \<le> A"
  by (induction k) (auto split: if_splits)

lemma binade_eq:
  assumes "s \<le> k" "0 < s \<longrightarrow> pow2 (52 + s) \<le> A" "A < pow2 (53 + s)"
  shows "binade k A = s"
  using assms
proof (induction k)
  case 0
  then show ?case by simp
next
  case (Suc k)
  show ?case
  proof (cases "pow2 (53 + k) \<le> A")
    case True
    then have "pow2 (53 + k) < pow2 (53 + s)" using Suc.prems(3) by linarith
    then have "k < s" by simp
    then show ?thesis using True Suc.prems(1) by simp
  next
    case False
    have "s \<noteq> Suc k" using False Suc.prems(2) by auto
    then show ?thesis using False Suc by simp
  qed
qed

lemma binade_top: "0 < k \<Longrightarrow> pow2 (52 + k) \<le> A \<Longrightarrow> binade k A = k"
  by (cases k) simp_all

text \<open>
  Rounding a real whose binade and nearest significand are known; a double is rounded
  to itself, rounding is symmetric, and a real of \<open>2^1024\<close> or more is rounded to
  \<^verbatim>\<open>Infinity\<close>.
\<close>

lemma fl_zero: "fl 0 = Num 0"
  by (simp add: fl_def rne_def binade_eq[of 0] pow2_0)

lemma fl_eval:
  assumes "0 < x" "s \<le> 2046"
    and "0 < s \<longrightarrow> pow2 (52 + s) \<le> x * pow2 1074" "x * pow2 1074 < pow2 (53 + s)"
    and "of_int r - 1 / 2 < x * pow2 1074 / pow2 s" "x * pow2 1074 / pow2 s < of_int r + 1 / 2"
    and "of_int r * pow2 s < pow2 2098"
  shows "fl x = Num (of_int r * pow2 s / pow2 1074)"
proof -
  have A: "\<bar>x\<bar> * pow2 1074 = x * pow2 1074" using assms(1) by simp
  have s: "binade 2046 (x * pow2 1074) = s" using assms(2,3,4) by (intro binade_eq) auto
  have r: "rne (x * pow2 1074 / pow2 s) = r" using assms(5,6) by (rule rne_near)
  show ?thesis
    using assms(1,7) by (simp add: fl_def A s r Let_def)
qed

lemma fl_exact:
  assumes "0 \<le> m" "m < 2 ^ 53" "s \<le> 2045" "0 < s \<longrightarrow> 2 ^ 52 \<le> m"
  shows "fl (of_int m * pow2 s / pow2 1074) = Num (of_int m * pow2 s / pow2 1074)"
proof (cases "m = 0")
  case True
  then show ?thesis by (simp add: fl_zero)
next
  case False
  then have m: "0 < m" using assms(1) by simp
  let ?x = "of_int m * pow2 s / pow2 1074"
  have x: "?x * pow2 1074 = of_int m * pow2 s" by simp
  have mr: "(of_int m :: real) < pow2 53"
    unfolding pow2_def using assms(2) by (metis of_int_less_numeral_power_cancel_iff)
  have lo: "0 < s \<longrightarrow> pow2 (52 + s) \<le> of_int m * pow2 s"
  proof
    assume "0 < s"
    then have "pow2 52 \<le> of_int m"
      unfolding pow2_def using assms(4) by (metis numeral_power_le_of_int_cancel_iff)
    then show "pow2 (52 + s) \<le> of_int m * pow2 s" by (simp add: pow2_add)
  qed
  have hi: "of_int m * pow2 s < pow2 (53 + s)" using mr by (simp add: pow2_add)
  have "pow2 (53 + s) \<le> pow2 2098" using assms(3) by simp
  then have ov: "of_int m * pow2 s < pow2 2098" using hi by linarith
  have "0 < ?x" using m by simp
  then show ?thesis
    using fl_eval[of ?x s m] assms(3) lo hi ov unfolding x by simp
qed

lemma fl_minus: "fl (- x) = (case fl x of Num y \<Rightarrow> Num (- y) | PosInf \<Rightarrow> NegInf | NegInf \<Rightarrow> PosInf | NaN \<Rightarrow> NaN)"
proof (cases "x = 0")
  case True
  then show ?thesis by (simp add: fl_zero)
next
  case False
  then show ?thesis by (auto simp: fl_def Let_def sgn_if)
qed

lemma fl_overflow:
  assumes "pow2 1024 \<le> x"
  shows "fl x = PosInf"
proof -
  have x: "0 < x" using assms pow2_pos[of 1024] by linarith
  have A: "pow2 2098 \<le> x * pow2 1074"
  proof -
    have "pow2 2098 = pow2 1024 * pow2 1074" by (simp add: pow2_add[symmetric])
    also have "\<dots> \<le> x * pow2 1074" using assms by simp
    finally show ?thesis .
  qed
  have s: "binade 2046 (x * pow2 1074) = 2046"
    using A by (intro binade_top) simp_all
  have "pow2 52 = of_int (2 ^ 52)" by (simp add: pow2_def)
  moreover have "pow2 52 \<le> x * pow2 1074 / pow2 2046"
  proof -
    have "pow2 52 * pow2 2046 = pow2 2098" by (simp add: pow2_add[symmetric])
    then show ?thesis using A by (simp add: pos_le_divide_eq)
  qed
  ultimately have "2 ^ 52 \<le> rne (x * pow2 1074 / pow2 2046)" by (metis rne_ge)
  then have "pow2 52 \<le> of_int (rne (x * pow2 1074 / pow2 2046))"
    unfolding pow2_def by (metis numeral_power_le_of_int_cancel_iff)
  then have "pow2 52 * pow2 2046 \<le> of_int (rne (x * pow2 1074 / pow2 2046)) * pow2 2046"
    by simp
  then have "pow2 2098 \<le> of_int (rne (x * pow2 1074 / pow2 2046)) * pow2 2046"
    by (simp add: pow2_add[symmetric])
  then show ?thesis using x by (simp add: fl_def s Let_def)
qed


text \<open>
  The error of one rounding, below the overflow range: relative \<open>2^-53\<close>, or
  absolute \<open>2^-1075\<close> among the subnormal numbers.
\<close>

lemma fl_err:
  assumes "\<bar>x\<bar> < pow2 1023"
  shows "\<exists>y. fl x = Num y \<and> \<bar>y - x\<bar> \<le> \<bar>x\<bar> / pow2 53 + 1 / pow2 1075"
proof -
  define A where "A = \<bar>x\<bar> * pow2 1074"
  define s where "s = binade 2046 A"
  define n where "n = A / pow2 s"
  define r where "r = rne n"
  have A0: "0 \<le> A" by (simp add: A_def)
  have "A < pow2 1023 * pow2 1074" using assms by (simp add: A_def)
  then have A1: "A < pow2 2097" by (simp add: pow2_add[symmetric])
  have s_le: "s \<le> 2046" by (simp add: s_def binade_le)
  have rn: "\<bar>of_int r - n\<bar> \<le> 1 / 2" unfolding r_def by (rule rne_err)
  have nA: "n * pow2 s = A" by (simp add: n_def)
  have d: "\<bar>of_int r * pow2 s - A\<bar> \<le> pow2 s / 2"
  proof -
    have "of_int r * pow2 s - A = (of_int r - n) * pow2 s"
      using nA by (simp add: algebra_simps)
    then have "\<bar>of_int r * pow2 s - A\<bar> = \<bar>of_int r - n\<bar> * pow2 s"
      by (simp add: abs_mult)
    also have "\<dots> \<le> (1 / 2) * pow2 s" using rn by (intro mult_right_mono) simp_all
    finally show ?thesis by simp
  qed
  have "pow2 s \<le> pow2 2097" using s_le by simp
  then have nov: "\<not> pow2 2098 \<le> of_int r * pow2 s"
  proof -
    have "of_int r * pow2 s \<le> A + pow2 s / 2" using d by linarith
    also have "\<dots> < pow2 2097 + pow2 2097" using A1 \<open>pow2 s \<le> pow2 2097\<close> pow2_pos[of s] by linarith
    also have "\<dots> = pow2 2098" using pow2_add[of 2097 1] by (simp add: pow2_def)
    finally show ?thesis by simp
  qed
  define y where "y = sgn x * (of_int r * pow2 s / pow2 1074)"
  have fl: "fl x = Num y"
    using nov by (simp add: fl_def Let_def A_def[symmetric] s_def[symmetric] n_def[symmetric]
        r_def[symmetric] y_def)
  have e1: "\<bar>y - x\<bar> \<le> pow2 s / (2 * pow2 1074)"
  proof -
    have "y - x = sgn x * ((of_int r * pow2 s - A) / pow2 1074)"
      by (simp add: y_def A_def sgn_if field_simps)
    then have "\<bar>y - x\<bar> \<le> \<bar>of_int r * pow2 s - A\<bar> / pow2 1074"
      by (simp add: abs_mult sgn_if)
    also have "\<dots> \<le> (pow2 s / 2) / pow2 1074" using d by (intro divide_right_mono) simp_all
    finally show ?thesis by simp
  qed
  have "pow2 s / (2 * pow2 1074) \<le> \<bar>x\<bar> / pow2 53 + 1 / pow2 1075"
  proof (cases "0 < s")
    case True
    then have "pow2 (52 + s) \<le> A" using binade_lower[of 2046 A] by (simp add: s_def)
    then have "pow2 52 * pow2 s \<le> \<bar>x\<bar> * pow2 1074" by (simp add: pow2_add A_def)
    then have "pow2 s \<le> \<bar>x\<bar> * pow2 1074 / pow2 52" by (simp add: pos_le_divide_eq mult.commute)
    then have "pow2 s / (2 * pow2 1074) \<le> (\<bar>x\<bar> * pow2 1074 / pow2 52) / (2 * pow2 1074)"
      by (intro divide_right_mono) simp_all
    also have "\<dots> = \<bar>x\<bar> / (2 * pow2 52)" by simp
    also have "2 * pow2 52 = pow2 53" using pow2_add[of 1 52] by (simp add: pow2_def)
    finally have "pow2 s / (2 * pow2 1074) \<le> \<bar>x\<bar> / pow2 53" .
    moreover have "0 \<le> 1 / pow2 1075" by simp
    ultimately show ?thesis by linarith
  next
    case False
    then have "s = 0" by simp
    moreover have "2 * pow2 1074 = pow2 1075" using pow2_add[of 1 1074] by (simp add: pow2_def)
    ultimately show ?thesis by (simp add: pow2_0)
  qed
  then show ?thesis using fl e1 by (intro exI[of _ y]) linarith
qed

text \<open>
  Rounding a real that lies, after scaling by a power of two, strictly within one half
  of an integer significand of 53 bits.
\<close>

lemma fl_round_small:
  assumes "0 < x" "j \<le> 1074" "j < 1074 \<longrightarrow> pow2 52 \<le> x * pow2 j" "x * pow2 j < pow2 53"
    and "of_int r - 1 / 2 < x * pow2 j" "x * pow2 j < of_int r + 1 / 2"
  shows "fl x = Num (of_int r / pow2 j)"
proof -
  define s where "s = 1074 - j"
  have p: "pow2 1074 = pow2 j * pow2 s" using assms(2) by (simp add: s_def pow2_add[symmetric])
  have xs: "x * pow2 1074 = (x * pow2 j) * pow2 s" by (simp add: p)
  have 1: "0 < s \<longrightarrow> pow2 (52 + s) \<le> x * pow2 1074"
  proof
    assume "0 < s"
    then have "pow2 52 \<le> x * pow2 j" using assms(3) by (simp add: s_def)
    then have "pow2 52 * pow2 s \<le> (x * pow2 j) * pow2 s" by (intro mult_right_mono) simp_all
    then show "pow2 (52 + s) \<le> x * pow2 1074" by (simp add: pow2_add xs)
  qed
  have 2: "x * pow2 1074 < pow2 (53 + s)"
  proof -
    have "(x * pow2 j) * pow2 s < pow2 53 * pow2 s" using assms(4) by (intro mult_strict_right_mono) simp_all
    then show ?thesis by (simp add: pow2_add xs)
  qed
  have 3: "x * pow2 1074 / pow2 s = x * pow2 j" by (simp add: xs)
  have 4: "of_int r * pow2 s < pow2 2098"
  proof -
    have "of_int r < pow2 53 + 1" using assms(4,5) by linarith
    also have "\<dots> \<le> pow2 53 + pow2 53" using pow2_le[of 0 53] by (simp add: pow2_0)
    also have "\<dots> = pow2 54" using pow2_add[of 1 53] by (simp add: pow2_def)
    finally have "of_int r * pow2 s < pow2 54 * pow2 s" by (intro mult_strict_right_mono) simp_all
    also have "\<dots> = pow2 (54 + s)" by (simp add: pow2_add)
    also have "\<dots> \<le> pow2 2098" by (simp add: s_def)
    finally show ?thesis .
  qed
  have "fl x = Num (of_int r * pow2 s / pow2 1074)"
  proof (rule fl_eval)
    show "0 < x" by (rule assms(1))
    show "s \<le> 2046" by (simp add: s_def)
    show "0 < s \<longrightarrow> pow2 (52 + s) \<le> x * pow2 1074" by (rule 1)
    show "x * pow2 1074 < pow2 (53 + s)" by (rule 2)
    show "of_int r - 1 / 2 < x * pow2 1074 / pow2 s" unfolding 3 by (rule assms(5))
    show "x * pow2 1074 / pow2 s < of_int r + 1 / 2" unfolding 3 by (rule assms(6))
    show "of_int r * pow2 s < pow2 2098" by (rule 4)
  qed
  then show ?thesis by (simp add: p)
qed

lemma fl_round_large:
  assumes "j \<le> 970" "pow2 52 \<le> x / pow2 j" "x / pow2 j < pow2 53"
    and "of_int r - 1 / 2 < x / pow2 j" "x / pow2 j < of_int r + 1 / 2"
  shows "fl x = Num (of_int r * pow2 j)"
proof -
  define s where "s = 1074 + j"
  have p: "pow2 s = pow2 1074 * pow2 j" by (simp add: s_def pow2_add)
  have "0 < pow2 52" by simp
  then have "0 < x / pow2 j" using assms(2) by linarith
  then have x: "0 < x" using pow2_pos[of j] by (simp add: zero_less_divide_iff not_less[symmetric] less_imp_le)
  have xs: "x * pow2 1074 = (x / pow2 j) * pow2 s" by (simp add: p)
  have 1: "pow2 (52 + s) \<le> x * pow2 1074"
  proof -
    have "pow2 52 * pow2 s \<le> (x / pow2 j) * pow2 s" using assms(2) by (intro mult_right_mono) simp_all
    then show ?thesis by (simp only: pow2_add xs)
  qed
  have 2: "x * pow2 1074 < pow2 (53 + s)"
  proof -
    have "(x / pow2 j) * pow2 s < pow2 53 * pow2 s" using assms(3) by (intro mult_strict_right_mono) simp_all
    then show ?thesis by (simp only: pow2_add xs)
  qed
  have 3: "x * pow2 1074 / pow2 s = x / pow2 j" by (simp add: p)
  have 4: "of_int r * pow2 s < pow2 2098"
  proof -
    have "of_int r < pow2 53 + 1" using assms(3,4) by linarith
    also have "\<dots> \<le> pow2 53 + pow2 53" using pow2_le[of 0 53] by (simp add: pow2_0)
    also have "\<dots> = pow2 54" using pow2_add[of 1 53] by (simp add: pow2_def)
    finally have "of_int r * pow2 s < pow2 54 * pow2 s" by (intro mult_strict_right_mono) simp_all
    also have "\<dots> = pow2 (54 + s)" by (simp add: pow2_add)
    also have "\<dots> \<le> pow2 2098" using assms(1) by (simp add: s_def)
    finally show ?thesis .
  qed
  have "fl x = Num (of_int r * pow2 s / pow2 1074)"
  proof (rule fl_eval)
    show "0 < x" by (rule x)
    show "s \<le> 2046" using assms(1) by (simp add: s_def)
    show "0 < s \<longrightarrow> pow2 (52 + s) \<le> x * pow2 1074" using 1 by simp
    show "x * pow2 1074 < pow2 (53 + s)" by (rule 2)
    show "of_int r - 1 / 2 < x * pow2 1074 / pow2 s" unfolding 3 by (rule assms(4))
    show "x * pow2 1074 / pow2 s < of_int r + 1 / 2" unfolding 3 by (rule assms(5))
    show "of_int r * pow2 s < pow2 2098" by (rule 4)
  qed
  then show ?thesis by (simp add: p)
qed

text \<open>
  The literals of the route: \<^verbatim>\<open>0.15\<close> is \<open>alpha\<close> and \<^verbatim>\<open>0.6\<close> is the threshold of
  \<open>at_least_threshold\<close>; \<^verbatim>\<open>1 - alpha\<close> is rounded. A tie goes to the even significand:
  \<^verbatim>\<open>0.1 + 0.2\<close> is \<^verbatim>\<open>0.30000000000000004\<close>.
\<close>

lemma alpha_is_double_of_015: "fl (15 / 100) = Num alpha"
proof -
  have "fl (15 / 100) = Num (of_int 5404319552844595 / pow2 55)"
    by (rule fl_round_small) (simp_all add: pow2_def)
  then show ?thesis by (simp add: alpha_def)
qed

lemma one_minus_alpha: "js_sub (Num 1) (Num alpha) = Num (7656119366529843 / pow2 53)"
proof -
  have "fl (1 - alpha) = Num (of_int 7656119366529843 / pow2 53)"
    by (rule fl_round_small) (simp_all add: alpha_def pow2_def)
  then show ?thesis by (simp add: js_sub_def)
qed

lemma threshold_is_double_of_06: "fl (6 / 10) = Num (5404319552844595 / pow2 53)"
proof -
  have "fl (6 / 10) = Num (of_int 5404319552844595 / pow2 53)"
    by (rule fl_round_small) (simp_all add: pow2_def)
  then show ?thesis by simp
qed

lemma rne_tie: "rne (of_int m + 1 / 2) = (if even m then m else m + 1)"
proof -
  have "\<lfloor>(of_int m :: real) + 1 / 2\<rfloor> = m" by linarith
  then show ?thesis by (simp add: rne_def Let_def)
qed

lemma one_tenth_plus_two_tenths:
  "js_add (Num (7205759403792794 / pow2 56)) (Num (7205759403792794 / pow2 55))
     = Num (5404319552844596 / pow2 54)"
proof -
  define x :: real where "x = 7205759403792794 / pow2 56 + 7205759403792794 / pow2 55"
  have x: "x = 21617278211378382 / pow2 56" by (simp add: x_def pow2_def)
  have A: "\<bar>x\<bar> * pow2 1074 = x * pow2 1074" by (simp add: x pow2_def)
  have p: "pow2 1074 = pow2 56 * pow2 1018" "pow2 1020 = 4 * pow2 1018"
    using pow2_add[of 56 1018] pow2_add[of 2 1018] by (simp_all add: pow2_def)
  have "x * pow2 1074 = 21617278211378382 / pow2 56 * (pow2 56 * pow2 1018)"
    by (simp only: x p)
  also have "\<dots> = 21617278211378382 * pow2 1018" by simp
  finally have xs: "x * pow2 1074 = 21617278211378382 * pow2 1018" .
  have "pow2 1072 \<le> x * pow2 1074" "x * pow2 1074 < pow2 1073"
    using pow2_add[of 54 1018] pow2_add[of 55 1018] unfolding xs by (simp_all add: pow2_def)
  then have s: "binade 2046 (x * pow2 1074) = 1020" by (intro binade_eq) simp_all
  have "x * pow2 1074 / pow2 1020 = 21617278211378382 * pow2 1018 / (4 * pow2 1018)"
    by (simp only: xs p(2))
  then have "x * pow2 1074 / pow2 1020 = of_int 5404319552844595 + 1 / 2" by simp
  then have r: "rne (x * pow2 1074 / pow2 1020) = 5404319552844596" by (simp only: rne_tie) simp
  have x0: "0 < x" by (simp add: x)
  have "(5404319552844596 :: real) < pow2 53" by (simp add: pow2_def)
  then have "5404319552844596 * pow2 1020 < pow2 53 * pow2 1020"
    by (intro mult_strict_right_mono) simp_all
  also have "\<dots> \<le> pow2 2098" by (simp add: pow2_add[symmetric])
  finally have no: "of_int 5404319552844596 * pow2 1020 < pow2 2098" by simp
  have "fl x = Num (of_int 5404319552844596 * pow2 1020 / pow2 1074)"
    using x0 no by (simp add: fl_def A s r Let_def)
  also have "of_int 5404319552844596 * pow2 1020 / pow2 1074 = 5404319552844596 / pow2 54"
    using pow2_add[of 54 1020] by simp
  finally have "fl x = Num (5404319552844596 / pow2 54)" .
  then show ?thesis by (simp add: x_def)
qed


section \<open>The session date\<close>

text \<open>
  For a clock reading at least a day inside the range of \<^verbatim>\<open>Date\<close>,
  \<^verbatim>\<open>setHours(0, 0, 0, 0)\<close> gives the session date.
\<close>

lemma session_date_setHours:
  assumes "\<bar>now\<bar> \<le> 8640000000000000 - msPerDay"
  shows "setHours tz (Some now) (Some 0) (Some 0) (Some 0) (Some 0) = Some (session_date tz now)"
proof -
  let ?d = "Day (LocalTime tz now) * msPerDay"
  have "?d \<le> now + tz" "now + tz < ?d + msPerDay"
    by (simp_all add: Day_def LocalTime_def msPerDay_def)
  then have "\<bar>?d - tz\<bar> \<le> 8640000000000000"
    using assms by (simp add: msPerDay_def)
  then show ?thesis
    by (simp add: setHours_def MakeDate_def MakeTime_def TimeClip_def UTC_def session_date_def)
qed

section \<open>Parsing a well-formed cutoff\<close>

lemma digit_cases:
  assumes "d < (10::nat)"
  shows "d = 0 \<or> d = 1 \<or> d = 2 \<or> d = 3 \<or> d = 4 \<or> d = 5 \<or> d = 6 \<or> d = 7 \<or> d = 8 \<or> d = 9"
  using assms by arith

lemma of_char_digit: "d < 10 \<Longrightarrow> (of_char (digit_char d) :: nat) = 48 + d"
  using digit_cases[of d] by (auto simp: digit_char_def)

lemma digitValue_digit: "d < 10 \<Longrightarrow> digitValue (digit_char d) = Some d"
  by (simp add: digitValue_def of_char_digit Let_def)

lemma not_ws_digit: "d < 10 \<Longrightarrow> \<not> isWhiteSpace (digit_char d)"
  by (simp add: isWhiteSpace_def of_char_digit)

lemma digit_char_neq:
  assumes "d < 10"
  shows "digit_char d \<noteq> CHR ''-''" "digit_char d \<noteq> CHR ''+''" "digit_char d \<noteq> CHR '':''"
        "digit_char d \<noteq> CHR ''x''" "digit_char d \<noteq> CHR ''X''"
  using digit_cases[OF assms] by (auto simp: digit_char_def)

lemma parseInt_two_digits:
  assumes "n < 100"
  shows "parseInt (two_digits n) = Some (int n)"
proof -
  have a: "n div 10 < 10" and b: "n mod 10 < 10" using assms by auto
  show ?thesis
    using digit_char_neq[OF a] digit_char_neq[OF b]
    by (simp add: parseInt_def two_digits_def not_ws_digit[OF a] digitValue_digit[OF a]
        digitValue_digit[OF b] Let_def a b)
qed

lemma parseInt_one_digit:
  assumes "n < 10"
  shows "parseInt [digit_char n] = Some (int n)"
  using digit_char_neq[OF assms]
  by (simp add: parseInt_def not_ws_digit[OF assms] digitValue_digit[OF assms] Let_def assms)

lemma split_two_digits:
  assumes "h < 100" "m < 100"
  shows "split_on CHR '':'' (two_digits h @ '':'' @ two_digits m) = [two_digits h, two_digits m]"
proof -
  have "h div 10 < 10" "h mod 10 < 10" "m div 10 < 10" "m mod 10 < 10" using assms by auto
  then show ?thesis
   using digit_char_neq(3)[of "h div 10"] digit_char_neq(3)[of "h mod 10"]
    digit_char_neq(3)[of "m div 10"] digit_char_neq(3)[of "m mod 10"]
  by (simp add: two_digits_def)
qed

lemma split_one_digit:
  assumes "h < 10" "m < 100"
  shows "split_on CHR '':'' (digit_char h # '':'' @ two_digits m) = [[digit_char h], two_digits m]"
proof -
  have "m div 10 < 10" "m mod 10 < 10" using assms by auto
  then show ?thesis
  using digit_char_neq(3)[of "h"] assms
    digit_char_neq(3)[of "m div 10"] digit_char_neq(3)[of "m mod 10"]
  by (simp add: two_digits_def)
qed

lemma cutoff_time_parsed:
  assumes "split_on CHR '':'' c = [a, b]" "parseInt a = Some (int h)" "parseInt b = Some (int m)"
    and "h < 24" "m < 60" "\<bar>now\<bar> \<le> 8640000000000000 - msPerDay"
  shows "cutoff_time tz now c = Some (cutoff_instant tz now h m)"
proof -
  let ?d = "Day (LocalTime tz now) * msPerDay"
  have d1: "?d \<le> now + tz" and d2: "now + tz < ?d + msPerDay"
    by (simp_all add: Day_def LocalTime_def msPerDay_def) 
  have "0 \<le> int h * msPerHour + int m * msPerMinute" "int h * msPerHour + int m * msPerMinute < msPerDay"
    using assms(4,5) by (simp_all add: msPerHour_def msPerMinute_def msPerDay_def)
  then have "\<bar>?d + (int h * msPerHour + int m * msPerMinute) - tz\<bar> \<le> 8640000000000000"
    using d1 d2 assms(6) by (simp add: msPerDay_def) 
  then show ?thesis
    using assms(1-3)
    by (simp add: cutoff_time_def Let_def parseInt_arg_def setHours_def MakeDate_def MakeTime_def
        TimeClip_def UTC_def cutoff_instant_def session_date_def)
qed

section \<open>The late cutoff\<close>

text \<open>
  Claim C2. With a well-formed cutoff, an event is \<open>late\<close> exactly when its time is
  strictly after the cutoff instant of its own calendar day, and \<open>present\<close> otherwise:
  an event at the cutoff itself is \<open>present\<close>. The event time is a clock reading at
  least a day inside the range of \<^verbatim>\<open>Date\<close>.
\<close>

theorem classification_against_cutoff:
  assumes "well_formed_cutoff h m c" and "\<bar>now\<bar> \<le> 8640000000000000 - msPerDay"
  shows "determine_status tz now c = (if now > cutoff_instant tz now h m then late else present)"
proof -
  have hm: "h < 24" "m < 60" using assms(1) by (simp_all add: well_formed_cutoff_def)
  then have hm': "h < 100" "m < 100" by simp_all
  have "\<exists>a b. split_on CHR '':'' c = [a, b] \<and> parseInt a = Some (int h) \<and> parseInt b = Some (int m)"
  proof (cases "c = two_digits h @ '':'' @ two_digits m")
    case True
    then show ?thesis
      using split_two_digits[OF hm'] parseInt_two_digits[OF hm'(1)] parseInt_two_digits[OF hm'(2)]
      by simp
  next
    case False
    then have h10: "h < 10" and c: "c = digit_char h # '':'' @ two_digits m"
      using assms(1) by (simp_all add: well_formed_cutoff_def)
    show ?thesis
      using split_one_digit[OF h10 hm'(2)] parseInt_one_digit[OF h10] parseInt_two_digits[OF hm'(2)] c
      by simp
  qed
  then obtain a b where "split_on CHR '':'' c = [a, b]" "parseInt a = Some (int h)"
    "parseInt b = Some (int m)" by blast
  then have "cutoff_time tz now c = Some (cutoff_instant tz now h m)"
    using cutoff_time_parsed hm assms(2) by blast
  then show ?thesis
    by (simp add: determine_status_def date_gt_def)
qed

text \<open>
  With the cutoff 09:00, in a zone five hours ahead of UTC: an event at 09:00:01 is
  late, one at 09:00:00 and one at 08:59:59 are present.
\<close>

theorem classification_against_cutoff_witness:
  "well_formed_cutoff 9 0 ''09:00''
   \<and> determine_status 18000000 (20000 * msPerDay + 9 * msPerHour + 1000 - 18000000) ''09:00'' = late
   \<and> determine_status 18000000 (20000 * msPerDay + 9 * msPerHour - 18000000) ''09:00'' = present
   \<and> determine_status 18000000 (20000 * msPerDay + 9 * msPerHour - 1000 - 18000000) ''09:00'' = present"
proof -
  have wf: "well_formed_cutoff 9 0 ''09:00''"
    by (simp add: well_formed_cutoff_def two_digits_def digit_char_def)
  have sd: "\<And>x. 0 \<le> x \<Longrightarrow> x < msPerDay \<Longrightarrow>
     session_date 18000000 (20000 * msPerDay + x - 18000000) = 20000 * msPerDay - 18000000"
    by (simp add: session_date_def Day_def LocalTime_def UTC_def msPerDay_def)
  have 1: "determine_status 18000000 (20000 * msPerDay + 9 * msPerHour + 1000 - 18000000) ''09:00'' = late"
    using classification_against_cutoff[OF wf, of "20000 * msPerDay + 9 * msPerHour + 1000 - 18000000" 18000000]
      sd[of "9 * msPerHour + 1000"]
    by (simp add: cutoff_instant_def msPerDay_def msPerHour_def msPerMinute_def)
  have 2: "determine_status 18000000 (20000 * msPerDay + 9 * msPerHour - 18000000) ''09:00'' = present"
    using classification_against_cutoff[OF wf, of "20000 * msPerDay + 9 * msPerHour - 18000000" 18000000]
      sd[of "9 * msPerHour"]
    by (simp add: cutoff_instant_def msPerDay_def msPerHour_def msPerMinute_def)
  have 3: "determine_status 18000000 (20000 * msPerDay + 9 * msPerHour - 1000 - 18000000) ''09:00'' = present"
    using classification_against_cutoff[OF wf, of "20000 * msPerDay + 9 * msPerHour - 1000 - 18000000" 18000000]
      sd[of "9 * msPerHour - 1000"]
    by (simp add: cutoff_instant_def msPerDay_def msPerHour_def msPerMinute_def)
  show ?thesis using wf 1 2 3 by blast
qed

section \<open>Marking by face recognition\<close>

text \<open>Loading the settings touches neither the students nor the attendance records.\<close>

lemma load_settings_students:
  "load_settings cfg sess d = (st, sess1, d1) \<Longrightarrow> students d1 = students d"
  by (auto simp: load_settings_def Let_def split: option.splits)

lemma load_settings_attendances:
  "load_settings cfg sess d = (st, sess1, d1) \<Longrightarrow> attendances d1 = attendances d"
  by (auto simp: load_settings_def Let_def split: option.splits)

lemma load_settings_next_id:
  "load_settings cfg sess d = (st, sess1, d1) \<Longrightarrow> next_id d1 = next_id d"
  by (auto simp: load_settings_def Let_def split: option.splits)

text \<open>
  A request with its three identifiers, for a student of the store who has no record
  for the course today, is answered with the new record.
\<close>

lemma mark_attendance_fresh:
  assumes "m_studentId req \<noteq> []" "m_courseId req \<noteq> []" "m_classId req \<noteq> []"
    and "find_attendance d (m_studentId req) (m_courseId req) (session_date (cfg_tz cfg) now) = None"
    and "find_student d (m_studentId req) = Some stu"
    and "load_settings cfg sess d = (st, sess1, d1)"
  shows "mark_attendance cfg now sess req d =
     (Inr \<lparr>att_id = next_id d, studentRef = m_studentId req, courseRef = m_courseId req,
            classRef = m_classId req,
            att_status = determine_status (cfg_tz cfg) now (lateCutoffTime st),
            confidenceScore = or_zero (m_confidenceScore req), markedBy = facial_recognition,
            sessionDate = session_date (cfg_tz cfg) now, timestamp = now\<rparr>,
      snd (create_attendance d1 (m_studentId req) (m_courseId req) (m_classId req)
            (determine_status (cfg_tz cfg) now (lateCutoffTime st))
            (or_zero (m_confidenceScore req)) facial_recognition
            (session_date (cfg_tz cfg) now) now),
      sess1, schedule_task req stu)"
proof -
  have "find_student d1 (m_studentId req) = Some stu"
    using assms(5) load_settings_students[OF assms(6)] by (simp add: find_student_def)
  then show ?thesis
    using assms(1-4,6) load_settings_next_id[OF assms(6)]
    by (simp add: mark_attendance_def Let_def create_attendance_def)
qed

lemma unparseable_present:
  assumes "cutoffHours c = None \<or> cutoffMinutes c = None"
  shows "determine_status tz now c = present"
  using assms
  by (auto simp: determine_status_def cutoff_time_def cutoffHours_def cutoffMinutes_def Let_def
      setHours_def MakeTime_def MakeDate_def date_gt_def split: option.splits)



text \<open>
  Claim C3, as amended. No cutoff string makes the marking fail: whatever the string in
  the settings, a request with its identifiers, for a student of the store with no
  record for the course today, is answered with a new record. When the text before the
  first colon or the text after it does not start with a number (which includes a
  string with no colon), the status of that record is \<open>present\<close>, at every event time.
\<close>

theorem malformed_cutoff_not_rejected:
  assumes "m_studentId req \<noteq> []" "m_courseId req \<noteq> []" "m_classId req \<noteq> []"
    and "find_attendance d (m_studentId req) (m_courseId req) (session_date (cfg_tz cfg) now) = None"
    and "find_student d (m_studentId req) = Some stu"
    and "lateCutoffTime (settings_in_use cfg sess d) = c"
  shows "\<exists>a d' sess' t. mark_attendance cfg now sess req d = (Inr a, d', sess', t) \<and>
           (cutoffHours c = None \<or> cutoffMinutes c = None \<longrightarrow> att_status a = present)"
proof -
  obtain st sess1 d1 where ls: "load_settings cfg sess d = (st, sess1, d1)"
    using prod_cases3 by blast
  then have c: "lateCutoffTime st = c" using assms(6) by (simp add: settings_in_use_def)
  show ?thesis
    using mark_attendance_fresh[OF assms(1-5) ls] unparseable_present[of c "cfg_tz cfg" now] c
    by auto
qed

lemma ex_session_date: "session_date 18000000 ex_now = ex_day"
  by (simp add: session_date_def Day_def LocalTime_def UTC_def msPerDay_def ex_now_def ex_day_def)

lemma ex_fresh:
  "find_attendance ex_db ''s1'' ''c1'' ex_day = None"
  "find_student ex_db ''s1'' = Some ex_student"
  by (simp_all add: find_attendance_def find_student_def ex_db_def ex_student_def)

lemma ex_load: "load_settings ex_cfg (ex_session c) ex_db =
   (\<lparr>settings_userId = ''t1'', settings_userModel = ''Teacher'', lateCutoffTime = c\<rparr>, ex_session c, ex_db)"
  by (simp add: load_settings_def ex_session_def)

lemma ex_parse:
  "cutoffHours ''abc'' = None"
  "cutoffHours ''25:00'' = Some 25" "cutoffMinutes ''25:00'' = Some 0"
  "cutoffHours ''9:75'' = Some 9" "cutoffMinutes ''9:75'' = Some 75"
  "cutoffHours ''09:00:59'' = Some 9" "cutoffMinutes ''09:00:59'' = Some 0"
  by (simp_all add: cutoffHours_def cutoffMinutes_def parseInt_arg_def parseInt_def
      isWhiteSpace_def digitValue_def Let_def)


lemma cutoff_time_eq:
  "cutoff_time tz now c = setHours tz (Some now) (cutoffHours c) (cutoffMinutes c) (Some 0) (Some 0)"
  by (simp add: cutoff_time_def cutoffHours_def cutoffMinutes_def Let_def)

lemma ex_mark:
  "mark_attendance ex_cfg ex_now (ex_session c) (ex_mark_request conf) ex_db =
     (Inr \<lparr>att_id = 0, studentRef = ''s1'', courseRef = ''c1'', classRef = ''classB'',
            att_status = determine_status 18000000 ex_now c, confidenceScore = or_zero conf,
            markedBy = facial_recognition, sessionDate = ex_day, timestamp = ex_now\<rparr>,
      snd (create_attendance ex_db ''s1'' ''c1'' ''classB'' (determine_status 18000000 ex_now c)
             (or_zero conf) facial_recognition ex_day ex_now),
      ex_session c, None)"
proof -
  have cfg: "cfg_tz ex_cfg = 18000000" by (simp add: ex_cfg_def)
  have req: "m_studentId (ex_mark_request conf) = ''s1''" "m_courseId (ex_mark_request conf) = ''c1''"
     "m_classId (ex_mark_request conf) = ''classB''" "m_confidenceScore (ex_mark_request conf) = conf"
     "m_faceDescriptor (ex_mark_request conf) = None"
    by (simp_all add: ex_mark_request_def)
  have n: "next_id ex_db = 0" by (simp add: ex_db_def)
  show ?thesis
    using mark_attendance_fresh[of "ex_mark_request conf" ex_db ex_cfg ex_now ex_student "ex_session c", OF _ _ _ _ _ ex_load]
      ex_fresh
    by (simp add: cfg req ex_session_date n schedule_task_def)
qed

text \<open>
  The claim as stated fails. At 11:00, with the cutoff string \<^verbatim>\<open>abc\<close>, the marking
  succeeds with status \<open>present\<close>. An hour outside 0--23 or a minute outside 0--59 is
  not refused either: \<^verbatim>\<open>25:00\<close> is 01:00 of the next day (\<open>present\<close> at 11:00),
  \<^verbatim>\<open>9:75\<close> is 10:15 (\<open>late\<close> at 11:00), and a third part is ignored.
\<close>

theorem malformed_cutoff_counterexample:
  "fst (mark_attendance ex_cfg ex_now (ex_session ''abc'') (ex_mark_request None) ex_db) =
     Inr \<lparr>att_id = 0, studentRef = ''s1'', courseRef = ''c1'', classRef = ''classB'',
           att_status = present, confidenceScore = 0, markedBy = facial_recognition,
           sessionDate = ex_day, timestamp = ex_now\<rparr>
   \<and> determine_status 18000000 ex_now ''25:00'' = present
   \<and> determine_status 18000000 ex_now ''9:75'' = late
   \<and> determine_status 18000000 ex_now ''09:00:59'' = late"
proof -
  have 1: "determine_status 18000000 ex_now ''abc'' = present"
    by (rule unparseable_present) (simp add: ex_parse)
  have 2: "determine_status 18000000 ex_now ''25:00'' = present"
    "determine_status 18000000 ex_now ''9:75'' = late"
    "determine_status 18000000 ex_now ''09:00:59'' = late"
    by (simp_all add: determine_status_def cutoff_time_eq ex_parse setHours_def MakeDate_def
        MakeTime_def TimeClip_def UTC_def LocalTime_def Day_def date_gt_def ex_now_def
        msPerDay_def msPerHour_def msPerMinute_def msPerSecond_def)
  show ?thesis using 1 2 by (simp add: ex_mark or_zero_def)
qed

text \<open>The cutoff \<^verbatim>\<open>9h30\<close> has no minute part; the marking succeeds with \<open>present\<close>.\<close>

theorem malformed_cutoff_not_rejected_witness:
  "cutoffMinutes ''9h30'' = None \<and>
   (\<exists>a d' sess' t.
      mark_attendance ex_cfg ex_now (ex_session ''9h30'') (ex_mark_request None) ex_db
        = (Inr a, d', sess', t) \<and> att_status a = present)"
proof -
  have p: "cutoffMinutes ''9h30'' = None"
    by (simp add: cutoffMinutes_def parseInt_arg_def parseInt_def
      isWhiteSpace_def digitValue_def Let_def)
  have s: "lateCutoffTime (settings_in_use ex_cfg (ex_session ''9h30'') ex_db) = ''9h30''"
    by (simp add: settings_in_use_def ex_load)
  have r: "m_studentId (ex_mark_request None) = ''s1''" "m_courseId (ex_mark_request None) = ''c1''"
     "m_classId (ex_mark_request None) = ''classB''" "cfg_tz ex_cfg = 18000000"
    by (simp_all add: ex_mark_request_def ex_cfg_def)
  show ?thesis
    using malformed_cutoff_not_rejected[of "ex_mark_request None" ex_db ex_cfg ex_now ex_student
        "ex_session ''9h30''" "''9h30''", OF _ _ _ _ _ s] ex_fresh p
    by (simp add: r ex_session_date)
qed

section \<open>Duplicates\<close>

lemma find_attendance_Some:
  assumes "a \<in> set (attendances d)" "studentRef a = sid" "courseRef a = cid" "sessionDate a = sd"
  shows "\<exists>e. find_attendance d sid cid sd = Some e"
proof (cases "find_attendance d sid cid sd")
  case None
  then show ?thesis using assms by (auto simp: find_attendance_def find_None_iff)
next
  case (Some e)
  then show ?thesis by simp
qed

text \<open>
  Claim C6. When the student already has a record for the course today, a request of
  either marking route that carries its identifiers (and, on the manual route, one of
  the three statuses) is answered 400 with \<^verbatim>\<open>alreadyMarked: true\<close>; the store and the
  session are as before, and no descriptor refresh is scheduled.
\<close>

theorem duplicate_is_rejected:
  assumes "a \<in> set (attendances d)"
    and "studentRef a = sid" "courseRef a = cid" "sessionDate a = session_date (cfg_tz cfg) now"
    and "sid \<noteq> []" "cid \<noteq> []"
  shows "(m_studentId req = sid \<and> m_courseId req = cid \<and> m_classId req \<noteq> [] \<longrightarrow>
            (\<exists>f. mark_attendance cfg now sess req d = (Inl f, d, sess, None)
                 \<and> alreadyMarked f \<and> http_status f = 400))
       \<and> (mm_studentId mreq = sid \<and> mm_courseId mreq = cid \<and> mm_classId mreq \<noteq> []
            \<and> status_of_string (mm_status mreq) \<noteq> None \<longrightarrow>
            (\<exists>f. manual_mark_attendance cfg now mreq d = (Inl f, d)
                 \<and> alreadyMarked f \<and> http_status f = 400))"
proof -
  obtain e where e: "find_attendance d sid cid (session_date (cfg_tz cfg) now) = Some e"
    using find_attendance_Some[OF assms(1-4)] by blast
  have 1: "mark_attendance cfg now sess req d
             = (Inl (already_marked ''Attendance already marked''), d, sess, None)"
    if "m_studentId req = sid" "m_courseId req = cid" "m_classId req \<noteq> []"
    using that e assms(5,6) by (simp add: mark_attendance_def Let_def)
  have ne: "mm_status mreq \<noteq> []" if "status_of_string (mm_status mreq) \<noteq> None"
    using that by (auto simp: status_of_string_def)
  have 2: "manual_mark_attendance cfg now mreq d
             = (Inl (already_marked ''Attendance already marked for this student''), d)"
    if "mm_studentId mreq = sid" "mm_courseId mreq = cid" "mm_classId mreq \<noteq> []"
      "status_of_string (mm_status mreq) \<noteq> None"
    using that e assms(5,6) ne by (auto simp: manual_mark_attendance_def Let_def)
  show ?thesis
    using 1 2 by (auto simp: already_marked_def)
qed

text \<open>The student of the example, already marked by hand, is refused on both routes.\<close>

theorem duplicate_is_rejected_witness:
  "(\<exists>f. mark_attendance ex_cfg ex_now (ex_session ''09:00'') (ex_mark_request (Some 1)) ex_db_marked
          = (Inl f, ex_db_marked, ex_session ''09:00'', None)
        \<and> alreadyMarked f \<and> http_status f = 400)
   \<and> (\<exists>f. manual_mark_attendance ex_cfg ex_now (ex_manual_request ''classB'' ''late'') ex_db_marked
          = (Inl f, ex_db_marked)
        \<and> alreadyMarked f \<and> http_status f = 400)"
proof -
  have a: "ex_record 0 ''classB'' present 1 manual \<in> set (attendances ex_db_marked)"
    by (simp add: ex_db_marked_def)
  have k: "studentRef (ex_record 0 ''classB'' present 1 manual) = ''s1''"
    "courseRef (ex_record 0 ''classB'' present 1 manual) = ''c1''"
    "sessionDate (ex_record 0 ''classB'' present 1 manual) = session_date (cfg_tz ex_cfg) ex_now"
    by (simp_all add: ex_record_def ex_cfg_def ex_session_date)
  have r: "m_studentId (ex_mark_request (Some 1)) = ''s1''"
    "m_courseId (ex_mark_request (Some 1)) = ''c1''"
    "m_classId (ex_mark_request (Some 1)) \<noteq> []"
    "mm_studentId (ex_manual_request ''classB'' ''late'') = ''s1''"
    "mm_courseId (ex_manual_request ''classB'' ''late'') = ''c1''"
    "mm_classId (ex_manual_request ''classB'' ''late'') \<noteq> []"
    "status_of_string (mm_status (ex_manual_request ''classB'' ''late'')) \<noteq> None"
    by (simp_all add: ex_mark_request_def ex_manual_request_def status_of_string_def)
  show ?thesis
    using duplicate_is_rejected[OF a k, of "ex_mark_request (Some 1)" "ex_session ''09:00''"
        "ex_manual_request ''classB'' ''late''"] r
    by simp
qed

section \<open>The confidence score\<close>

text \<open>
  Claim C10. A face-recognition request without a confidence score, or with the score
  0, is served like any other: the record is created, with confidence 0 and source
  \<open>facial_recognition\<close>, and no descriptor refresh is scheduled. A score that is a
  number other than 0 is stored as it is. The request carries its identifiers and is
  for a student of the store with no record for the course today.
\<close>

theorem falsy_confidence_still_marks:
  assumes "m_studentId req \<noteq> []" "m_courseId req \<noteq> []" "m_classId req \<noteq> []"
    and "find_attendance d (m_studentId req) (m_courseId req) (session_date (cfg_tz cfg) now) = None"
    and "find_student d (m_studentId req) = Some stu"
  shows "(m_confidenceScore req = None \<or> m_confidenceScore req = Some 0 \<longrightarrow>
            (\<exists>a d' sess'. mark_attendance cfg now sess req d = (Inr a, d', sess', None)
                 \<and> a \<in> set (attendances d') \<and> length (attendances d') = Suc (length (attendances d))
                 \<and> confidenceScore a = 0 \<and> markedBy a = facial_recognition))
       \<and> (\<forall>x. m_confidenceScore req = Some x \<and> x \<noteq> 0 \<longrightarrow>
            (\<exists>a d' sess' t. mark_attendance cfg now sess req d = (Inr a, d', sess', t)
                 \<and> a \<in> set (attendances d')
                 \<and> confidenceScore a = x \<and> markedBy a = facial_recognition))"
proof -
  obtain st sess1 d1 where ls: "load_settings cfg sess d = (st, sess1, d1)"
    using prod_cases3 by blast
  note m = mark_attendance_fresh[OF assms ls]
  have att: "attendances d1 = attendances d" using load_settings_attendances[OF ls] .
  have t: "schedule_task req stu = None"
    if "m_confidenceScore req = None \<or> m_confidenceScore req = Some 0"
    using that by (auto simp: schedule_task_def at_least_threshold_def split: option.splits)
  show ?thesis
    using m t att load_settings_next_id[OF ls]
    by (auto simp: create_attendance_def Let_def or_zero_def)
qed

text \<open>The student of the example marked with no score, with the score 0, and with 3/4.\<close>

theorem falsy_confidence_still_marks_witness:
  "(\<exists>a d' sess'. mark_attendance ex_cfg ex_now (ex_session ''09:00'') (ex_mark_request None) ex_db
        = (Inr a, d', sess', None) \<and> a \<in> set (attendances d')
          \<and> length (attendances d') = Suc (length (attendances ex_db))
          \<and> confidenceScore a = 0 \<and> markedBy a = facial_recognition)
   \<and> (\<exists>a d' sess'. mark_attendance ex_cfg ex_now (ex_session ''09:00'') (ex_mark_request (Some 0)) ex_db
        = (Inr a, d', sess', None) \<and> a \<in> set (attendances d')
          \<and> length (attendances d') = Suc (length (attendances ex_db))
          \<and> confidenceScore a = 0 \<and> markedBy a = facial_recognition)
   \<and> (\<exists>a d' sess' t. mark_attendance ex_cfg ex_now (ex_session ''09:00'') (ex_mark_request (Some (3/4))) ex_db
        = (Inr a, d', sess', t) \<and> a \<in> set (attendances d')
          \<and> confidenceScore a = 3/4 \<and> markedBy a = facial_recognition)"
proof -
  have r: "m_studentId (ex_mark_request c) = ''s1''" "m_courseId (ex_mark_request c) = ''c1''"
     "m_classId (ex_mark_request c) = ''classB''" "m_confidenceScore (ex_mark_request c) = c"
     "cfg_tz ex_cfg = 18000000" for c
    by (simp_all add: ex_mark_request_def ex_cfg_def)
  have p: "''s1'' \<noteq> []" "''c1'' \<noteq> []" "''classB'' \<noteq> []" by simp_all
  have 1: "\<exists>a d' sess'. mark_attendance ex_cfg ex_now (ex_session ''09:00'') (ex_mark_request None) ex_db
        = (Inr a, d', sess', None) \<and> a \<in> set (attendances d')
          \<and> length (attendances d') = Suc (length (attendances ex_db))
          \<and> confidenceScore a = 0 \<and> markedBy a = facial_recognition"
    using falsy_confidence_still_marks[of "ex_mark_request None" ex_db ex_cfg ex_now ex_student
        "ex_session ''09:00''", unfolded r ex_session_date, OF p ex_fresh]
    by blast
  have 2: "\<exists>a d' sess'. mark_attendance ex_cfg ex_now (ex_session ''09:00'') (ex_mark_request (Some 0)) ex_db
        = (Inr a, d', sess', None) \<and> a \<in> set (attendances d')
          \<and> length (attendances d') = Suc (length (attendances ex_db))
          \<and> confidenceScore a = 0 \<and> markedBy a = facial_recognition"
    using falsy_confidence_still_marks[of "ex_mark_request (Some 0)" ex_db ex_cfg ex_now ex_student
        "ex_session ''09:00''", unfolded r ex_session_date, OF p ex_fresh]
    by blast
  have "(3/4::real) \<noteq> 0" by simp
  then have 3: "\<exists>a d' sess' t. mark_attendance ex_cfg ex_now (ex_session ''09:00'') (ex_mark_request (Some (3/4))) ex_db
        = (Inr a, d', sess', t) \<and> a \<in> set (attendances d')
          \<and> confidenceScore a = 3/4 \<and> markedBy a = facial_recognition"
    using falsy_confidence_still_marks[of "ex_mark_request (Some (3/4))" ex_db ex_cfg ex_now ex_student
        "ex_session ''09:00''", unfolded r ex_session_date, OF p ex_fresh]
    by blast
  show ?thesis using 1 2 3 by blast
qed

section \<open>Ending a session\<close>

text \<open>What the bulk insert does to the store.\<close>

lemma insert_absent_eq:
  "insert_absent cid clid sd ts d s =
     d\<lparr>attendances := attendances d @
          [\<lparr>att_id = next_id d, studentRef = info_id s, courseRef = cid, classRef = clid,
            att_status = absent, confidenceScore = 0, markedBy = system, sessionDate = sd,
            timestamp = ts\<rparr>],
       next_id := Suc (next_id d)\<rparr>"
  by (simp add: insert_absent_def create_attendance_def Let_def)

lemma insertMany_absent_students:
  "students (insertMany_absent cid clid sd ts us d) = students d"
  unfolding insertMany_absent_def
  by (induction us arbitrary: d) (simp_all add: insert_absent_eq)

lemma insertMany_absent_keeps:
  "a \<in> set (attendances d) \<Longrightarrow> a \<in> set (attendances (insertMany_absent cid clid sd ts us d))"
  unfolding insertMany_absent_def
  by (induction us arbitrary: d) (simp_all add: insert_absent_eq)

lemma insertMany_absent_adds:
  "s \<in> set us \<Longrightarrow>
     \<exists>a \<in> set (attendances (insertMany_absent cid clid sd ts us d)).
        studentRef a = info_id s \<and> courseRef a = cid \<and> classRef a = clid \<and> sessionDate a = sd"
proof (induction us arbitrary: d)
  case Nil
  then show ?case by simp
next
  case (Cons u us)
  show ?case
  proof (cases "s = u")
    case True
    let ?d = "insert_absent cid clid sd ts d u"
    have "\<exists>a \<in> set (attendances ?d).
        studentRef a = info_id s \<and> courseRef a = cid \<and> classRef a = clid \<and> sessionDate a = sd"
      using True by (simp add: insert_absent_eq)
    then obtain a where "a \<in> set (attendances ?d)" "studentRef a = info_id s" "courseRef a = cid"
      "classRef a = clid" "sessionDate a = sd" by blast
    then show ?thesis
      using insertMany_absent_keeps[of a ?d cid clid sd ts us]
      by (auto simp: insertMany_absent_def)
  next
    case False
    then have "s \<in> set us" using Cons.prems by simp
    from Cons.IH[OF this, of "insert_absent cid clid sd ts d u"]
    show ?thesis by (simp add: insertMany_absent_def)
  qed
qed

text \<open>The marked and the unmarked students of a class, in terms of the records.\<close>

lemma marked_ids_iff:
  "sid \<in> markedStudentIds (markedAttendance d cid clid sd) \<longleftrightarrow>
     (\<exists>a \<in> set (attendances d). studentRef a = sid \<and> courseRef a = cid \<and> classRef a = clid
         \<and> sessionDate a = sd)"
  by (auto simp: markedStudentIds_def markedAttendance_def select_studentRef_def)

lemma unmarked_iff:
  "s \<in> set (unmarkedStudents all (markedAttendance d cid clid sd)) \<longleftrightarrow>
     s \<in> set all \<and> \<not> (\<exists>a \<in> set (attendances d). studentRef a = info_id s \<and> courseRef a = cid
         \<and> classRef a = clid \<and> sessionDate a = sd)"
  by (simp add: unmarkedStudents_def marked_ids_iff)

lemma end_session_students:
  "end_session cfg now req d = (r, d1) \<Longrightarrow> students d1 = students d"
  by (auto simp: end_session_def Let_def insertMany_absent_students split: if_splits)

text \<open>After a session is ended with absences marked, no student of the class is unmarked.\<close>

lemma end_session_marks_all:
  assumes "es_classId req \<noteq> []" "es_courseId req \<noteq> []"
    and "es_markAbsent req = None \<or> es_markAbsent req = Some True"
    and "end_session cfg now req d = (r, d1)"
  shows "unmarkedStudents (allStudents d1 (es_classId req))
           (markedAttendance d1 (es_courseId req) (es_classId req) (session_date (cfg_tz cfg) now)) = []"
proof -
  let ?sd = "session_date (cfg_tz cfg) now"
  let ?all = "allStudents d (es_classId req)"
  let ?un = "unmarkedStudents ?all (markedAttendance d (es_courseId req) (es_classId req) ?sd)"
  have all: "allStudents d1 (es_classId req) = ?all"
    using end_session_students[OF assms(4)] by (simp add: allStudents_def)
  have ma: "(case es_markAbsent req of None \<Rightarrow> True | Some b \<Rightarrow> b)"
    using assms(3) by auto
  have d1: "d1 = (if ?un \<noteq> [] then insertMany_absent (es_courseId req) (es_classId req) ?sd now ?un d else d)"
    using assms(1,2,4) ma by (auto simp: end_session_def Let_def)
  have "\<not> s \<in> set (unmarkedStudents ?all (markedAttendance d1 (es_courseId req) (es_classId req) ?sd))" for s
  proof (cases "s \<in> set ?un")
    case True
    then have "?un \<noteq> []" by auto
    then show ?thesis
      using d1 insertMany_absent_adds[OF True, of "es_courseId req" "es_classId req" ?sd now d]
      by (simp add: unmarked_iff)
  next
    case False
    then show ?thesis
      using d1 insertMany_absent_keeps[of _ d "es_courseId req" "es_classId req" ?sd now ?un]
      by (auto simp: unmarked_iff)
  qed
  then show ?thesis using all by (metis list.set_intros(1) neq_Nil_conv)
qed

text \<open>
  Claim C7. After the session of a class and course was ended with
  \<^verbatim>\<open>markAbsent\<close> true (or left out), ending it again on the same day marks no one
  absent: the response counts 0 absences and lists no unmarked student, and the store
  is as the first call left it.
\<close>

theorem end_session_idempotent:
  assumes "es_classId req \<noteq> []" "es_courseId req \<noteq> []"
    and "es_markAbsent req = None \<or> es_markAbsent req = Some True"
    and "session_date (cfg_tz cfg) now2 = session_date (cfg_tz cfg) now1"
    and "end_session cfg now1 req d = (r1, d1)"
  shows "\<exists>resp. end_session cfg now2 req d1 = (Inr resp, d1)
            \<and> e_absentCount resp = 0 \<and> e_unmarkedStudents resp = []"
  using end_session_marks_all[OF assms(1,2,3,5)] assms(1,2,4)
  by (simp add: end_session_def Let_def)


text \<open>Ending the session of the example class marks its student absent.\<close>

lemma ex_end_first:
  "end_session ex_cfg ex_now ex_end_request ex_db =
     (Inr \<lparr>e_totalStudents = 1, e_presentCount = 0, e_absentCount = 1,
           e_unmarkedStudents = [\<lparr>info_id = ''s1'', info_fullName = ''Ada'', info_rollNo = ''R1''\<rparr>]\<rparr>,
      ex_db_ended)"
  by (simp add: end_session_def ex_end_request_def ex_cfg_def ex_session_date ex_db_def
      ex_student_def allStudents_def markedAttendance_def unmarkedStudents_def markedStudentIds_def
      select_info_def insertMany_absent_def insert_absent_eq ex_db_ended_def ex_record_def Let_def)

text \<open>An hour later the same request finds nothing left to do.\<close>

theorem end_session_idempotent_witness:
  "end_session ex_cfg ex_now ex_end_request ex_db =
     (Inr \<lparr>e_totalStudents = 1, e_presentCount = 0, e_absentCount = 1,
           e_unmarkedStudents = [\<lparr>info_id = ''s1'', info_fullName = ''Ada'', info_rollNo = ''R1''\<rparr>]\<rparr>,
      ex_db_ended)
   \<and> session_date (cfg_tz ex_cfg) (ex_now + 3600000) = session_date (cfg_tz ex_cfg) ex_now
   \<and> (\<exists>resp. end_session ex_cfg (ex_now + 3600000) ex_end_request ex_db_ended = (Inr resp, ex_db_ended)
          \<and> e_absentCount resp = 0 \<and> e_unmarkedStudents resp = [])"
proof -
  have sd: "session_date (cfg_tz ex_cfg) (ex_now + 3600000) = session_date (cfg_tz ex_cfg) ex_now"
    by (simp add: session_date_def Day_def LocalTime_def UTC_def msPerDay_def ex_now_def ex_cfg_def)
  have r: "es_classId ex_end_request \<noteq> []" "es_courseId ex_end_request \<noteq> []"
    "es_markAbsent ex_end_request = None \<or> es_markAbsent ex_end_request = Some True"
    by (simp_all add: ex_end_request_def)
  show ?thesis
    using end_session_idempotent[OF r sd ex_end_first] ex_end_first sd by blast
qed


text \<open>
  The two counts of the response: \<^verbatim>\<open>presentCount\<close> is the number of records the query
  for the course, class and day returned, whatever their status, because the projection
  drops the status the filter looks at; \<^verbatim>\<open>absentCount\<close> is the number of records added.
\<close>

lemma insertMany_absent_length:
  "length (attendances (insertMany_absent cid clid sd ts us d)) = length (attendances d) + length us"
  unfolding insertMany_absent_def
  by (induction us arbitrary: d) (simp_all add: insert_absent_eq)

lemma end_session_counts:
  assumes "end_session cfg now req d = (Inr resp, d1)"
  shows "e_presentCount resp =
           length (filter (\<lambda>a. courseRef a = es_courseId req \<and> classRef a = es_classId req
                              \<and> sessionDate a = session_date (cfg_tz cfg) now) (attendances d))"
    and "length (attendances d1) = length (attendances d) + e_absentCount resp"
  using assms
  by (auto simp: end_session_def Let_def markedAttendance_def select_studentRef_def
      insertMany_absent_length split: if_splits)

text \<open>
  Claim C8, at the input where the code departs from it. The only record of the class
  is an absent one, so no student is present or late; the route reports
  \<^verbatim>\<open>presentCount\<close> 1.
\<close>

theorem end_session_counts_absent_as_present:
  "end_session ex_cfg ex_now ex_end_request ex_db_ended =
     (Inr \<lparr>e_totalStudents = 1, e_presentCount = 1, e_absentCount = 0, e_unmarkedStudents = []\<rparr>,
      ex_db_ended)
   \<and> filter (\<lambda>a. att_status a = present \<or> att_status a = late) (attendances ex_db_ended) = []"
  by (simp add: end_session_def ex_end_request_def ex_cfg_def ex_session_date ex_db_def
      ex_student_def allStudents_def markedAttendance_def unmarkedStudents_def markedStudentIds_def
      select_info_def select_studentRef_def ex_db_ended_def ex_record_def Let_def)

section \<open>One record per student, course and day\<close>

text \<open>
  The student of class B is marked by hand in a request that names class A; the
  duplicate check of the marking routes does not look at the class, the query of
  \<^verbatim>\<open>end-session\<close> does.
\<close>

lemma ex_manual_other_class:
  "manual_mark_attendance ex_cfg ex_now (ex_manual_request ''classA'' ''present'') ex_db =
     (Inr (ex_record 0 ''classA'' present 1 manual),
      ex_db\<lparr>attendances := [ex_record 0 ''classA'' present 1 manual], next_id := 1\<rparr>)"
  by (simp add: manual_mark_attendance_def ex_manual_request_def status_of_string_def ex_cfg_def
      ex_session_date find_attendance_def find_student_def create_attendance_def ex_db_def
      ex_student_def ex_record_def Let_def)

lemma ex_end_other_class:
  "end_session ex_cfg ex_now ex_end_request
     (ex_db\<lparr>attendances := [ex_record 0 ''classA'' present 1 manual], next_id := 1\<rparr>) =
     (Inr \<lparr>e_totalStudents = 1, e_presentCount = 0, e_absentCount = 1,
           e_unmarkedStudents = [\<lparr>info_id = ''s1'', info_fullName = ''Ada'', info_rollNo = ''R1''\<rparr>]\<rparr>,
      ex_db\<lparr>attendances := [ex_record 0 ''classA'' present 1 manual,
                              ex_record 1 ''classB'' absent 0 system], next_id := 2\<rparr>)"
  by (simp add: end_session_def ex_end_request_def ex_cfg_def ex_session_date ex_db_def
      ex_student_def allStudents_def markedAttendance_def unmarkedStudents_def markedStudentIds_def
      select_info_def insertMany_absent_def insert_absent_eq ex_record_def Let_def)

lemma ex_run_other_class:
  "run ex_cfg [(ex_now, MarkManual (ex_manual_request ''classA'' ''present'')),
               (ex_now, Finalize ex_end_request)] ex_db
     = ex_db\<lparr>attendances := [ex_record 0 ''classA'' present 1 manual,
                              ex_record 1 ''classB'' absent 0 system], next_id := 2\<rparr>"
  by (simp only: run.simps apply_operation.simps ex_manual_other_class ex_end_other_class snd_conv)

text \<open>
  Claim C1, at the input where the code departs from it. From the empty ledger, a
  manual mark naming class A followed by the end of the session of class B leaves two
  records for the same student, course and day.
\<close>

theorem two_records_after_class_mismatch:
  "attendances (run ex_cfg [(ex_now, MarkManual (ex_manual_request ''classA'' ''present'')),
                            (ex_now, Finalize ex_end_request)] ex_db)
     = [ex_record 0 ''classA'' present 1 manual, ex_record 1 ''classB'' absent 0 system]
   \<and> records_for (run ex_cfg [(ex_now, MarkManual (ex_manual_request ''classA'' ''present'')),
                               (ex_now, Finalize ex_end_request)] ex_db) ''s1'' ''c1'' ex_day
     = [ex_record 0 ''classA'' present 1 manual, ex_record 1 ''classB'' absent 0 system]
   \<and> \<not> one_record_per_key (run ex_cfg [(ex_now, MarkManual (ex_manual_request ''classA'' ''present'')),
                            (ex_now, Finalize ex_end_request)] ex_db)"
  unfolding ex_run_other_class
  by (simp add: one_record_per_key_def record_key_def records_for_def ex_record_def)

section \<open>Cancelling a record\<close>












section \<open>The descriptor refresh\<close>

text \<open>
  The sum of the squares, its square root and the quotients, as computed. For a vector
  of at most 128 finite numbers of magnitude at most \<open>2^500\<close>, one of them at least
  \<open>2^-500\<close>, no step overflows, the magnitude is not zero, and every step is
  within a relative error of \<open>2^-53\<close> of the exact one.
\<close>

lemma nth_opt_nth: "i < length xs \<Longrightarrow> nth_opt xs i = Some (xs ! i)"
  by (induction xs i rule: nth_opt.induct) simp_all

lemma sum_squares_nonneg: "0 \<le> sum_list (map (\<lambda>x. x * x) (v :: real list))"
  by (induction v) simp_all

lemma sum_squares_computed:
  fixes T :: real
  defines "C \<equiv> 4 * T / pow2 53 + 2 / pow2 1075"
  assumes "\<forall>x \<in> set bs. \<bar>x\<bar> \<le> pow2 500"
    and "0 \<le> t" "t + sum_list (map (\<lambda>x. x * x) bs) \<le> T"
    and "\<bar>s - t\<bar> \<le> real k * C" "real (k + length bs) * C \<le> T" "T \<le> pow2 1010"
  shows "\<exists>s'. foldl (\<lambda>sum val. js_add sum (js_mul val val)) (Num s) (map Num bs) = Num s'
            \<and> \<bar>s' - (t + sum_list (map (\<lambda>x. x * x) bs))\<bar> \<le> real (k + length bs) * C"
  using assms(2-)
proof (induction bs arbitrary: s t k)
  case Nil
  then show ?case by simp
next
  case (Cons x bs)
  let ?rest = "sum_list (map (\<lambda>x. x * x) bs)"
  have rest: "0 \<le> ?rest" by (rule sum_squares_nonneg)
  have "0 \<le> x * x" by simp
  moreover have "t + (x * x + ?rest) \<le> T" using Cons.prems(3) by simp
  ultimately have T0: "0 \<le> T" using Cons.prems(2) rest by linarith
  have C0: "0 \<le> C" using T0 by (simp add: C_def)
  have xx: "x * x \<le> T" using Cons.prems(2,3) rest by simp
  have "\<bar>x\<bar> * \<bar>x\<bar> \<le> pow2 500 * pow2 500"
    using Cons.prems(1) by (intro mult_mono) simp_all
  then have "\<bar>x * x\<bar> \<le> pow2 1000" by (simp add: abs_mult pow2_add[symmetric])
  moreover have "pow2 1000 < pow2 1023" by simp
  ultimately have "\<bar>x * x\<bar> < pow2 1023" by linarith
  then obtain p where p: "fl (x * x) = Num p" "\<bar>p - x * x\<bar> \<le> \<bar>x * x\<bar> / pow2 53 + 1 / pow2 1075"
    using fl_err by blast
  have pe: "\<bar>p - x * x\<bar> \<le> T / pow2 53 + 1 / pow2 1075"
  proof -
    have "\<bar>x * x\<bar> / pow2 53 \<le> T / pow2 53" using xx by (intro divide_right_mono) simp_all
    then show ?thesis using p(2) by linarith
  qed
  have kC: "real k * C \<le> T"
  proof -
    have "real k * C \<le> real (k + length (x # bs)) * C" using C0 by (intro mult_right_mono) simp_all
    then show ?thesis using Cons.prems(5) by linarith
  qed
  have C_le: "C \<le> T"
  proof -
    have "1 * C \<le> real (k + length (x # bs)) * C" using C0 by (intro mult_right_mono) simp_all
    then show ?thesis using Cons.prems(5) by linarith
  qed
  have uT: "T / pow2 53 + 1 / pow2 1075 \<le> C"
  proof -
    have "T / pow2 53 \<le> 4 * T / pow2 53" using T0 by (intro divide_right_mono) simp_all
    moreover have "1 / pow2 1075 \<le> 2 / pow2 1075" by (intro divide_right_mono) simp_all
    ultimately show ?thesis unfolding C_def by linarith
  qed
  have z: "\<bar>s + p\<bar> \<le> 3 * T"
  proof -
    have "0 \<le> x * x" by simp
    then have "\<bar>s + p\<bar> \<le> \<bar>s - t\<bar> + t + \<bar>p - x * x\<bar> + x * x" using Cons.prems(2) by linarith
    also have "\<dots> \<le> T + (t + x * x) + C" using Cons.prems(4) kC pe uT by linarith
    also have "\<dots> \<le> T + T + T" using C_le Cons.prems(3) rest by simp
    finally show ?thesis by simp
  qed
  have "3 * T \<le> 4 * pow2 1010" using Cons.prems(6) T0 by linarith
  also have "\<dots> = pow2 1012" using pow2_add[of 2 1010] by (simp add: pow2_def)
  also have "\<dots> < pow2 1023" by simp
  finally have "\<bar>s + p\<bar> < pow2 1023" using z by linarith
  then obtain s2 where s2: "fl (s + p) = Num s2" "\<bar>s2 - (s + p)\<bar> \<le> \<bar>s + p\<bar> / pow2 53 + 1 / pow2 1075"
    using fl_err by blast
  have "\<bar>s + p\<bar> / pow2 53 \<le> 3 * T / pow2 53" using z by (intro divide_right_mono) simp_all
  then have s2e: "\<bar>s2 - (s + p)\<bar> \<le> 3 * T / pow2 53 + 1 / pow2 1075" using s2(2) by linarith
  have step: "\<bar>s2 - (t + x * x)\<bar> \<le> real (Suc k) * C"
  proof -
    have "\<bar>s2 - (t + x * x)\<bar> \<le> \<bar>s2 - (s + p)\<bar> + \<bar>s - t\<bar> + \<bar>p - x * x\<bar>" by linarith
    also have "\<dots> \<le> (3 * T / pow2 53 + 1 / pow2 1075) + real k * C + (T / pow2 53 + 1 / pow2 1075)"
      using s2e Cons.prems(4) pe by linarith
    also have "\<dots> = real k * C + C" by (simp add: C_def)
    finally show ?thesis by (simp add: algebra_simps)
  qed
  have "\<exists>s'. foldl (\<lambda>sum val. js_add sum (js_mul val val)) (Num s2) (map Num bs) = Num s'
            \<and> \<bar>s' - ((t + x * x) + ?rest)\<bar> \<le> real (Suc k + length bs) * C"
  proof (rule Cons.IH)
    show "\<forall>x\<in>set bs. \<bar>x\<bar> \<le> pow2 500" using Cons.prems(1) by simp
    show "0 \<le> t + x * x" using Cons.prems(2) by simp
    show "t + x * x + ?rest \<le> T" using Cons.prems(3) by simp
    show "\<bar>s2 - (t + x * x)\<bar> \<le> real (Suc k) * C" by (rule step)
    show "real (Suc k + length bs) * C \<le> T" using Cons.prems(5) by simp
    show "T \<le> pow2 1010" by (rule Cons.prems(6))
  qed
  then show ?case using p(1) s2(1) by (simp add: add.assoc)
qed


lemma square_le_sum_squares: "x \<in> set v \<Longrightarrow> x * x \<le> sum_list (map (\<lambda>x. x * x) (v :: real list))"
proof (induction v)
  case Nil
  then show ?case by simp
next
  case (Cons a v)
  have a: "0 \<le> a * a" by simp
  show ?case
  proof (cases "x = a")
    case True
    then show ?thesis using sum_squares_nonneg[of v] by simp
  next
    case False
    then have "x * x \<le> sum_list (map (\<lambda>x. x * x) v)" using Cons by simp
    then have "x * x \<le> a * a + sum_list (map (\<lambda>x. x * x) v)" using a by linarith
    then show ?thesis by simp
  qed
qed

lemma sum_squares_le:
  "\<forall>x \<in> set v. x * x \<le> B \<Longrightarrow> sum_list (map (\<lambda>x. x * x) (v :: real list)) \<le> real (length v) * B"
  by (induction v) (auto simp: algebra_simps)

lemma pow2_53_large: "10 ^ 15 \<le> pow2 53"
  by (simp add: pow2_def)

lemma inv_pow2_small: "53 \<le> n \<Longrightarrow> 1 / pow2 n \<le> 1 / 10 ^ 15"
proof -
  assume "53 \<le> n"
  then have "pow2 53 \<le> pow2 n" by simp
  then have "10 ^ 15 \<le> pow2 n" using pow2_53_large by linarith
  then show ?thesis by (intro divide_left_mono) simp_all
qed

lemma sqrt_diff_le:
  assumes "0 \<le> a" "0 < b"
  shows "\<bar>sqrt a - sqrt b\<bar> \<le> \<bar>a - b\<bar> / sqrt b"
proof -
  have sb: "0 < sqrt b" using assms(2) by simp
  have sa: "0 \<le> sqrt a" using assms(1) by simp
  have "(sqrt a - sqrt b) * (sqrt a + sqrt b) = a - b"
    using assms by (simp add: algebra_simps)
  then have "\<bar>sqrt a - sqrt b\<bar> * (sqrt a + sqrt b) = \<bar>a - b\<bar>"
    using sa sb by (metis abs_mult abs_of_nonneg add_nonneg_nonneg less_imp_le)
  moreover have "\<bar>sqrt a - sqrt b\<bar> * sqrt b \<le> \<bar>sqrt a - sqrt b\<bar> * (sqrt a + sqrt b)"
    using sa by (intro mult_left_mono) simp_all
  ultimately have "\<bar>sqrt a - sqrt b\<bar> * sqrt b \<le> \<bar>a - b\<bar>" by linarith
  then show ?thesis using sb by (simp add: pos_le_divide_eq)
qed

lemma magnitude_computed:
  assumes "length b \<le> 128"
    and "\<forall>x \<in> set b. \<bar>x\<bar> \<le> pow2 500" and "\<exists>x \<in> set b. 1 / pow2 500 \<le> \<bar>x\<bar>"
  shows "\<exists>m. magnitude (map Num b) = Num m \<and> \<bar>m - l2_norm b\<bar> \<le> l2_norm b / 10 ^ 11
            \<and> 1 / pow2 500 \<le> l2_norm b"
proof -
  define S where "S = sum_list (map (\<lambda>x. x * x) b)"
  define L where "L = l2_norm b"
  have L: "L = sqrt S" by (simp add: L_def S_def l2_norm_def)
  obtain x0 where x0: "x0 \<in> set b" "1 / pow2 500 \<le> \<bar>x0\<bar>" using assms(3) by blast
  have "(1 / pow2 500) * (1 / pow2 500) \<le> \<bar>x0\<bar> * \<bar>x0\<bar>"
    using x0(2) by (intro mult_mono) simp_all
  then have "1 / pow2 1000 \<le> x0 * x0" by (simp add: pow2_add[symmetric])
  then have S_lo: "1 / pow2 1000 \<le> S"
    using square_le_sum_squares[OF x0(1)] by (simp add: S_def)
  have "0 < 1 / pow2 1000" by simp
  then have S_pos: "0 < S" using S_lo by linarith
  have sq: "\<forall>x \<in> set b. x * x \<le> pow2 1000"
  proof
    fix x assume "x \<in> set b"
    then have "\<bar>x\<bar> * \<bar>x\<bar> \<le> pow2 500 * pow2 500" using assms(2) by (intro mult_mono) simp_all
    then show "x * x \<le> pow2 1000" by (simp add: pow2_add[symmetric])
  qed
  have "S \<le> real (length b) * pow2 1000" unfolding S_def by (rule sum_squares_le[OF sq])
  also have "\<dots> \<le> 128 * pow2 1000" using assms(1) by (intro mult_right_mono) simp_all
  also have "\<dots> = pow2 1007" using pow2_add[of 7 1000] by (simp add: pow2_def)
  finally have S_hi: "S \<le> pow2 1007" .
  define C where "C = 4 * S / pow2 53 + 2 / pow2 1075"
  have C0: "0 \<le> C" using S_pos by (simp add: C_def)
  have c1: "4 * S / pow2 53 \<le> 4 * S / 10 ^ 15"
    using S_pos pow2_53_large by (intro divide_left_mono) simp_all
  have c2: "2 / pow2 1075 \<le> S / 10 ^ 15"
  proof -
    have "2 / pow2 1075 = (2 / pow2 75) * (1 / pow2 1000)" by (simp add: pow2_add[symmetric])
    also have "\<dots> \<le> (2 / pow2 75) * S" using S_lo by (intro mult_left_mono) simp_all
    also have "2 / pow2 75 = 1 / pow2 74" using pow2_add[of 1 74] by (simp add: pow2_def)
    also have "(1 / pow2 74) * S \<le> (1 / 10 ^ 15) * S"
      using S_pos inv_pow2_small[of 74] by (intro mult_right_mono) simp_all
    finally show ?thesis by simp
  qed
  have C_le: "C \<le> 5 * S / 10 ^ 15" unfolding C_def using c1 c2 by simp
  have nC: "real (length b) * C \<le> S / 10 ^ 12"
  proof -
    have "real (length b) * C \<le> 128 * C" using assms(1) C0 by (intro mult_right_mono) simp_all
    also have "\<dots> \<le> 128 * (5 * S / 10 ^ 15)" using C_le by simp
    also have "\<dots> \<le> S / 10 ^ 12" using S_pos by simp
    finally show ?thesis .
  qed
  have "\<exists>s'. foldl (\<lambda>sum val. js_add sum (js_mul val val)) (Num 0) (map Num b) = Num s'
            \<and> \<bar>s' - (0 + sum_list (map (\<lambda>x. x * x) b))\<bar> \<le> real (0 + length b) * (4 * S / pow2 53 + 2 / pow2 1075)"
  proof (rule sum_squares_computed)
    show "\<forall>x\<in>set b. \<bar>x\<bar> \<le> pow2 500" by (rule assms(2))
    show "(0::real) \<le> 0" by simp
    show "0 + sum_list (map (\<lambda>x. x * x) b) \<le> S" by (simp add: S_def)
    show "\<bar>0 - 0 :: real\<bar> \<le> real 0 * (4 * S / pow2 53 + 2 / pow2 1075)" by simp
    have "S / 10 ^ 12 \<le> S" using S_pos by simp
    moreover have "real (length b) * (4 * S / pow2 53 + 2 / pow2 1075) \<le> S / 10 ^ 12"
      using nC unfolding C_def .
    ultimately have "real (length b) * (4 * S / pow2 53 + 2 / pow2 1075) \<le> S" by linarith
    then show "real (0 + length b) * (4 * S / pow2 53 + 2 / pow2 1075) \<le> S" by simp
    have "pow2 1007 \<le> pow2 1010" by simp
    then show "S \<le> pow2 1010" using S_hi by linarith
  qed
  then obtain S' where S'a: "foldl (\<lambda>sum val. js_add sum (js_mul val val)) (Num 0) (map Num b) = Num S'"
    and S'b: "\<bar>S' - (0 + sum_list (map (\<lambda>x. x * x) b))\<bar>
               \<le> real (0 + length b) * (4 * S / pow2 53 + 2 / pow2 1075)"
    by blast
  have "\<bar>S' - S\<bar> \<le> real (length b) * C" using S'b by (simp add: S_def C_def)
  then have "\<bar>S' - S\<bar> \<le> S / 10 ^ 12" using nC by linarith
  note S' = S'a this
  have Sfrac: "0 \<le> S / 10 ^ 12" "S / 10 ^ 12 \<le> S" using S_pos by simp_all
  have S'0: "0 \<le> S'" using S'(2) Sfrac by linarith
  have S'2: "S' \<le> 2 * S" using S'(2) Sfrac by linarith
  have Lpos: "0 < L" using S_pos by (simp add: L)
  have LL: "L * L = S" using S_pos by (simp add: L)
  have d1: "\<bar>sqrt S' - L\<bar> \<le> L / 10 ^ 12"
  proof -
    have "\<bar>sqrt S' - sqrt S\<bar> \<le> \<bar>S' - S\<bar> / sqrt S" by (rule sqrt_diff_le[OF S'0 S_pos])
    also have "\<dots> \<le> (S / 10 ^ 12) / sqrt S" using S'(2) Lpos by (intro divide_right_mono) (simp_all add: L)
    also have "\<dots> = L / 10 ^ 12" using LL Lpos by (simp add: L[symmetric] field_simps)
    finally show ?thesis by (simp add: L)
  qed
  have L_lo: "1 / pow2 500 \<le> L"
  proof -
    have "(1 / pow2 500)^2 \<le> S" using S_lo by (simp add: power2_eq_square pow2_add[symmetric])
    then show ?thesis unfolding L by (rule real_le_rsqrt)
  qed
  have sq_small: "sqrt S' < pow2 1023"
  proof -
    have "sqrt S' \<le> 1 + S'"
    proof (cases "S' \<le> 1")
      case True
      then have "sqrt S' \<le> 1" using S'0 by simp
      then show ?thesis using S'0 by linarith
    next
      case False
      then have "1 \<le> sqrt S'" by simp
      then have "sqrt S' * 1 \<le> sqrt S' * sqrt S'" using S'0 by (intro mult_left_mono) simp_all
      then show ?thesis using S'0 by simp
    qed
    also have "\<dots> \<le> 1 + 2 * pow2 1007" using S'2 S_hi by linarith
    also have "\<dots> \<le> pow2 1007 + 2 * pow2 1007" using pow2_le[of 0 1007] by (simp add: pow2_0)
    also have "\<dots> \<le> 4 * pow2 1007" by simp
    also have "\<dots> = pow2 1009" using pow2_add[of 2 1007] by (simp add: pow2_def)
    also have "\<dots> < pow2 1023" by simp
    finally show ?thesis .
  qed
  then have "\<bar>sqrt S'\<bar> < pow2 1023" using S'0 by simp
  then obtain m where m: "fl (sqrt S') = Num m"
    "\<bar>m - sqrt S'\<bar> \<le> \<bar>sqrt S'\<bar> / pow2 53 + 1 / pow2 1075"
    using fl_err by blast
  have mag: "magnitude (map Num b) = Num m"
    using S'(1) S'0 m(1) by (simp add: magnitude_def)
  have e1: "\<bar>sqrt S'\<bar> / pow2 53 \<le> 2 * L / 10 ^ 15"
  proof -
    have "L / 10 ^ 12 \<le> L" using Lpos by simp
    moreover have "0 \<le> sqrt S'" using S'0 by simp
    ultimately have "\<bar>sqrt S'\<bar> \<le> 2 * L" using d1 by linarith
    then have "\<bar>sqrt S'\<bar> / pow2 53 \<le> 2 * L / pow2 53" by (intro divide_right_mono) simp_all
    also have "\<dots> \<le> 2 * L / 10 ^ 15" using Lpos pow2_53_large by (intro divide_left_mono) simp_all
    finally show ?thesis .
  qed
  have e2: "1 / pow2 1075 \<le> L / 10 ^ 15"
  proof -
    have "1 / pow2 1075 = (1 / pow2 575) * (1 / pow2 500)" by (simp add: pow2_add[symmetric])
    also have "\<dots> \<le> (1 / pow2 575) * L" using L_lo by (intro mult_left_mono) simp_all
    also have "\<dots> \<le> (1 / 10 ^ 15) * L" using Lpos inv_pow2_small[of 575] by (intro mult_right_mono) simp_all
    finally show ?thesis by simp
  qed
  have "\<bar>m - L\<bar> \<le> \<bar>m - sqrt S'\<bar> + \<bar>sqrt S' - L\<bar>" by linarith
  also have "\<dots> \<le> 2 * L / 10 ^ 15 + L / 10 ^ 15 + L / 10 ^ 12" using m(2) e1 e2 d1 by linarith
  also have "\<dots> \<le> L / 10 ^ 11" using Lpos by (simp add: field_simps)
  finally have "\<bar>m - L\<bar> \<le> L / 10 ^ 11" .
  then show ?thesis using mag L_lo unfolding L_def by blast
qed


lemma quotient_computed:
  assumes "\<bar>m - L\<bar> \<le> L / 10 ^ 11" "1 / pow2 500 \<le> L" "\<bar>x\<bar> \<le> L"
  shows "\<exists>y. js_div (Num x) (Num m) = Num y \<and> \<bar>y - x / L\<bar> \<le> 1 / 10 ^ 10"
proof -
  have "0 < 1 / pow2 500" by simp
  then have Lpos: "0 < L" using assms(2) by linarith
  have "L / 10 ^ 11 \<le> L / 2" using Lpos by simp
  then have m_lo: "L / 2 \<le> m" using assms(1) by linarith
  then have mpos: "0 < m" using Lpos by linarith
  have q2: "\<bar>x / m\<bar> \<le> 2"
  proof -
    have "\<bar>x\<bar> \<le> 2 * m" using assms(3) m_lo by linarith
    then show ?thesis using mpos by (simp add: pos_divide_le_eq)
  qed
  have "(2::real) < pow2 1023" using pow2_less[of 1 1023] by (simp add: pow2_def)
  then have "\<bar>x / m\<bar> < pow2 1023" using q2 by linarith
  then obtain y where y: "fl (x / m) = Num y" "\<bar>y - x / m\<bar> \<le> \<bar>x / m\<bar> / pow2 53 + 1 / pow2 1075"
    using fl_err by blast
  have e1: "\<bar>x / m\<bar> / pow2 53 \<le> 2 / 10 ^ 15"
  proof -
    have "\<bar>x / m\<bar> / pow2 53 \<le> 2 / pow2 53" using q2 by (intro divide_right_mono) simp_all
    also have "\<dots> \<le> 2 / 10 ^ 15" using pow2_53_large by (intro divide_left_mono) simp_all
    finally show ?thesis .
  qed
  have e2: "1 / pow2 1075 \<le> 1 / 10 ^ 15" by (rule inv_pow2_small) simp
  have e3: "\<bar>x / m - x / L\<bar> \<le> 2 / 10 ^ 11"
  proof -
    have "x / m - x / L = x * (L - m) / (m * L)" using mpos Lpos by (simp add: field_simps)
    then have "\<bar>x / m - x / L\<bar> = \<bar>x\<bar> * \<bar>L - m\<bar> / (m * L)"
      using mpos Lpos by (simp add: abs_mult)
    also have "\<dots> \<le> L * (L / 10 ^ 11) / (m * L)"
    proof (intro divide_right_mono mult_mono)
      show "\<bar>x\<bar> \<le> L" by (rule assms(3))
      show "\<bar>L - m\<bar> \<le> L / 10 ^ 11" using assms(1) by linarith
      show "0 \<le> L" using Lpos by simp
      show "0 \<le> \<bar>L - m\<bar>" by simp
      show "0 \<le> m * L" using mpos Lpos by simp
    qed
    also have "\<dots> = (L / m) / 10 ^ 11" using Lpos by simp
    also have "\<dots> \<le> 2 / 10 ^ 11"
    proof -
      have "L / m \<le> 2" using m_lo mpos by (simp add: pos_divide_le_eq)
      then show ?thesis by (intro divide_right_mono) simp_all
    qed
    finally show ?thesis .
  qed
  have "\<bar>y - x / L\<bar> \<le> \<bar>y - x / m\<bar> + \<bar>x / m - x / L\<bar>" by linarith
  also have "\<dots> \<le> 2 / 10 ^ 15 + 1 / 10 ^ 15 + 2 / 10 ^ 11" using y(2) e1 e2 e3 by linarith
  also have "\<dots> \<le> 1 / 10 ^ 10" by simp
  finally have "\<bar>y - x / L\<bar> \<le> 1 / 10 ^ 10" .
  then show ?thesis using y(1) mpos by auto
qed

lemma sum_squares_close:
  assumes "length os = length cs"
    and "\<forall>i < length cs. \<bar>os ! i - cs ! i\<bar> \<le> d \<and> \<bar>cs ! i\<bar> \<le> 1" and "0 \<le> d"
  shows "\<bar>sum_list (map (\<lambda>x. x * x) os) - sum_list (map (\<lambda>x. x * x) cs)\<bar>
           \<le> real (length cs) * (d * (2 + d))"
  using assms
proof (induction os cs rule: list_induct2)
  case Nil
  then show ?case by simp
next
  case (Cons x xs y ys)
  have h: "\<bar>x - y\<bar> \<le> d" "\<bar>y\<bar> \<le> 1" using Cons.prems(1) by auto
  have t: "\<forall>i < length ys. \<bar>xs ! i - ys ! i\<bar> \<le> d \<and> \<bar>ys ! i\<bar> \<le> 1"
    using Cons.prems(1) by auto
  have "x * x - y * y = (x - y) * (x + y)" by (simp add: algebra_simps)
  then have "\<bar>x * x - y * y\<bar> = \<bar>x - y\<bar> * \<bar>x + y\<bar>" by (simp add: abs_mult)
  also have "\<dots> \<le> d * (2 + d)"
  proof (intro mult_mono)
    show "\<bar>x - y\<bar> \<le> d" by (rule h(1))
    show "\<bar>x + y\<bar> \<le> 2 + d" using h by linarith
    show "0 \<le> d" by (rule Cons.prems(2))
    show "0 \<le> \<bar>x + y\<bar>" by simp
  qed
  finally have 1: "\<bar>x * x - y * y\<bar> \<le> d * (2 + d)" .
  have 2: "\<bar>sum_list (map (\<lambda>x. x * x) xs) - sum_list (map (\<lambda>x. x * x) ys)\<bar>
           \<le> real (length ys) * (d * (2 + d))"
    using Cons.IH[OF t Cons.prems(2)] .
  have "\<bar>(x * x + sum_list (map (\<lambda>x. x * x) xs)) - (y * y + sum_list (map (\<lambda>x. x * x) ys))\<bar>
          \<le> d * (2 + d) + real (length ys) * (d * (2 + d))"
    using 1 2 by linarith
  then show ?case by (simp add: algebra_simps)
qed

lemma sum_squares_scaled:
  fixes L :: real
  shows "sum_list (map (\<lambda>x. x * x) (map (\<lambda>x. x / L) v)) = sum_list (map (\<lambda>x. x * x) v) / (L * L)"
proof -
  have "sum_list (map (\<lambda>x. x * x) (map (\<lambda>x. x / L) v))
          = sum_list (map (\<lambda>x. (1 / (L * L)) * (x * x)) v)"
    by (simp add: comp_def)
  also have "\<dots> = (1 / (L * L)) * sum_list (map (\<lambda>x. x * x) v)"
    by (rule sum_list_const_mult)
  finally show ?thesis by simp
qed

lemma sqrt_near_one:
  assumes "0 \<le> y"
  shows "\<bar>sqrt y - 1\<bar> \<le> \<bar>y - 1\<bar>"
proof -
  have "\<bar>sqrt y - sqrt 1\<bar> \<le> \<bar>y - 1\<bar> / sqrt 1" by (rule sqrt_diff_le[OF assms]) simp
  then show ?thesis by simp
qed

lemma abs_le_l2_norm:
  assumes "x \<in> set b"
  shows "\<bar>x\<bar> \<le> l2_norm b"
proof -
  have "\<bar>x\<bar>^2 \<le> sum_list (map (\<lambda>x. x * x) b)"
    using square_le_sum_squares[OF assms] by (simp add: power2_eq_square)
  then show ?thesis unfolding l2_norm_def by (rule real_le_rsqrt)
qed

lemma normalized_computed:
  assumes "length b \<le> 128"
    and "\<forall>x \<in> set b. \<bar>x\<bar> \<le> pow2 500" and "\<exists>x \<in> set b. 1 / pow2 500 \<le> \<bar>x\<bar>"
  shows "\<exists>out. map (\<lambda>val. js_div val (magnitude (map Num b))) (map Num b) = map Num out
           \<and> length out = length b
           \<and> (\<forall>i < length b. \<bar>out ! i - b ! i / l2_norm b\<bar> \<le> 1 / 10 ^ 10)
           \<and> \<bar>l2_norm out - 1\<bar> \<le> 1 / 10 ^ 6"
proof -
  define L where "L = l2_norm b"
  obtain m where m: "magnitude (map Num b) = Num m" "\<bar>m - L\<bar> \<le> L / 10 ^ 11" "1 / pow2 500 \<le> L"
    using magnitude_computed[OF assms] unfolding L_def by blast
  have "0 < 1 / pow2 500" by simp
  then have Lpos: "0 < L" using m(3) by linarith
  define g where "g x = (case js_div (Num x) (Num m) of Num y \<Rightarrow> y | _ \<Rightarrow> 0)" for x
  define out where "out = map g b"
  have q: "js_div (Num x) (Num m) = Num (g x) \<and> \<bar>g x - x / L\<bar> \<le> 1 / 10 ^ 10" if "x \<in> set b" for x
  proof -
    have "\<bar>x\<bar> \<le> L" using abs_le_l2_norm[OF that] by (simp add: L_def)
    then obtain y where "js_div (Num x) (Num m) = Num y" "\<bar>y - x / L\<bar> \<le> 1 / 10 ^ 10"
      using quotient_computed[OF m(2,3)] by blast
    then show ?thesis by (simp add: g_def)
  qed
  have 1: "map (\<lambda>val. js_div val (magnitude (map Num b))) (map Num b) = map Num out"
    using q by (simp add: out_def m(1) comp_def)
  have 2: "length out = length b" by (simp add: out_def)
  have 3: "\<forall>i < length b. \<bar>out ! i - b ! i / L\<bar> \<le> 1 / 10 ^ 10"
    using q by (simp add: out_def)
  define cs where "cs = map (\<lambda>x. x / L) b"
  have cs1: "\<forall>i < length cs. \<bar>out ! i - cs ! i\<bar> \<le> 1 / 10 ^ 10 \<and> \<bar>cs ! i\<bar> \<le> 1"
  proof (intro allI impI)
    fix i assume "i < length cs"
    then have i: "i < length b" by (simp add: cs_def)
    then have "\<bar>b ! i\<bar> \<le> L" using abs_le_l2_norm[of "b ! i" b] by (simp add: L_def)
    then have "\<bar>cs ! i\<bar> \<le> 1" using i Lpos by (simp add: cs_def)
    then show "\<bar>out ! i - cs ! i\<bar> \<le> 1 / 10 ^ 10 \<and> \<bar>cs ! i\<bar> \<le> 1"
      using 3 i by (simp add: cs_def)
  qed
  have S: "sum_list (map (\<lambda>x. x * x) b) = L * L"
    using sum_squares_nonneg[of b] by (simp add: L_def l2_norm_def)
  have cs2: "sum_list (map (\<lambda>x. x * x) cs) = 1"
    unfolding cs_def sum_squares_scaled S using Lpos by simp
  have "\<bar>sum_list (map (\<lambda>x. x * x) out) - sum_list (map (\<lambda>x. x * x) cs)\<bar>
           \<le> real (length cs) * ((1 / 10 ^ 10) * (2 + 1 / 10 ^ 10))"
    by (rule sum_squares_close[OF _ cs1]) (simp_all add: cs_def out_def)
  also have "\<dots> \<le> 128 * ((1 / 10 ^ 10) * (2 + 1 / 10 ^ 10))"
    using assms(1) by (intro mult_right_mono) (simp_all add: cs_def)
  also have "\<dots> \<le> 1 / 10 ^ 6" by simp
  finally have "\<bar>sum_list (map (\<lambda>x. x * x) out) - 1\<bar> \<le> 1 / 10 ^ 6" by (simp add: cs2)
  then have 4: "\<bar>l2_norm out - 1\<bar> \<le> 1 / 10 ^ 6"
    using sqrt_near_one[OF sum_squares_nonneg[of out]] unfolding l2_norm_def by linarith
  show ?thesis using 1 2 3 4 unfolding L_def by blast
qed

lemma normalized_of_computed_blend:
  assumes "updatedDescriptor w existing observed = map Num b"
    and "b \<noteq> []" "length b \<le> 128"
    and "\<forall>x \<in> set b. \<bar>x\<bar> \<le> pow2 500" and "\<exists>x \<in> set b. 1 / pow2 500 \<le> \<bar>x\<bar>"
  shows "\<exists>out. normalizedDescriptor w existing observed = map Num out
           \<and> length out = length b
           \<and> (\<forall>i < length b. \<bar>out ! i - b ! i / l2_norm b\<bar> \<le> 1 / 10 ^ 6)
           \<and> \<bar>l2_norm out - 1\<bar> \<le> 1 / 10 ^ 6"
proof -
  obtain out where out: "map (\<lambda>val. js_div val (magnitude (map Num b))) (map Num b) = map Num out"
    "length out = length b" "\<forall>i < length b. \<bar>out ! i - b ! i / l2_norm b\<bar> \<le> 1 / 10 ^ 10"
    "\<bar>l2_norm out - 1\<bar> \<le> 1 / 10 ^ 6"
    using normalized_computed[OF assms(3,4,5)] by blast
  have "(1::real) / 10 ^ 10 \<le> 1 / 10 ^ 6" by simp
  then have "\<forall>i < length b. \<bar>out ! i - b ! i / l2_norm b\<bar> \<le> 1 / 10 ^ 6"
    using out(3) by (meson order_trans)
  then show ?thesis
    using out(1,2,4) by (auto simp: normalizedDescriptor_def assms(1) Let_def)
qed

text \<open>
  On vectors of finite numbers of one length the blend is computed entry by entry, each
  with four roundings: of the complement of the weight, of the two products and of
  their sum.
\<close>

lemma updatedDescriptor_entries:
  assumes "length e = length ob"
  shows "updatedDescriptor w (map Num e) (map Num ob)
       = map (\<lambda>(x, y). js_add (js_mul (Num x) (js_sub (Num 1) (Num w))) (js_mul (Num y) (Num w)))
           (zip e ob)"
proof (rule nth_equalityI)
  show "length (updatedDescriptor w (map Num e) (map Num ob))
      = length (map (\<lambda>(x, y). js_add (js_mul (Num x) (js_sub (Num 1) (Num w))) (js_mul (Num y) (Num w)))
           (zip e ob))"
    using assms by (simp add: updatedDescriptor_def)
next
  fix i assume "i < length (updatedDescriptor w (map Num e) (map Num ob))"
  then have i: "i < length e" by (simp add: updatedDescriptor_def)
  then have "nth_opt (map Num ob) i = Some (Num (ob ! i))"
    using assms by (simp add: nth_opt_nth)
  then show "updatedDescriptor w (map Num e) (map Num ob) ! i
      = map (\<lambda>(x, y). js_add (js_mul (Num x) (js_sub (Num 1) (Num w))) (js_mul (Num y) (Num w)))
           (zip e ob) ! i"
    using i assms by (simp add: updatedDescriptor_def)
qed

text \<open>
  With a weight in \<open>[0, 1]\<close> and entries of magnitude at most \<open>2^498\<close> nothing
  overflows, each computed entry is a finite number of magnitude at most \<open>2^500\<close>,
  and it is the blend of the specification up to the roundings.
\<close>

lemma pow2_53_ge: "9000000000000000 \<le> pow2 53"
  by (simp add: pow2_def)

lemma rel_err_le:
  assumes "0 \<le> z" shows "z / pow2 53 \<le> z / 9000000000000000"
  using assms pow2_53_ge by (intro divide_left_mono) simp_all

lemma blend_entry_computed:
  assumes w: "0 \<le> w" "w \<le> 1" and x: "\<bar>x\<bar> \<le> pow2 498" and y: "\<bar>y\<bar> \<le> pow2 498"
  shows "\<exists>b. js_add (js_mul (Num x) (js_sub (Num 1) (Num w))) (js_mul (Num y) (Num w)) = Num b
            \<and> \<bar>b\<bar> \<le> pow2 500
            \<and> \<bar>b - (x * (1 - w) + y * w)\<bar> \<le> (\<bar>x\<bar> + \<bar>y\<bar>) / 10 ^ 15 + 1 / pow2 570"
proof -
  define \<eta> :: real where "\<eta> = 1 / pow2 1075"
  define E :: real where "E = 1 / pow2 577"
  define X where "X = \<bar>x\<bar>"
  define Y where "Y = \<bar>y\<bar>"
  have X0: "0 \<le> X" and Y0: "0 \<le> Y" by (simp_all add: X_def Y_def)
  have \<eta>0: "0 \<le> \<eta>" by (simp add: \<eta>_def)
  have "1 / pow2 1075 \<le> 1 / pow2 53" by (intro divide_left_mono) simp_all
  also have "\<dots> \<le> 1 / 9000000000000000" using rel_err_le[of 1] by simp
  finally have \<eta>s: "\<eta> \<le> 1 / 9000000000000000" by (simp add: \<eta>_def)
  have "pow2 498 * \<eta> = pow2 498 / pow2 1075" by (simp add: \<eta>_def)
  also have "\<dots> = E" by (simp add: pow2_div' E_def)
  finally have pE: "pow2 498 * \<eta> = E" .
  have "X * \<eta> \<le> pow2 498 * \<eta>" using x \<eta>0 by (intro mult_right_mono) (simp_all add: X_def)
  then have XE: "X * \<eta> \<le> E" using pE by simp
  have "1 * \<eta> \<le> pow2 498 * \<eta>" using \<eta>0 by (intro mult_right_mono) (simp_all add: pow2_0[symmetric])
  then have \<eta>E: "\<eta> \<le> E" using pE by simp
  have "128 * E = pow2 7 / pow2 577" by (simp add: E_def pow2_def)
  also have "\<dots> = 1 / pow2 570" by (simp add: pow2_div')
  finally have E570: "128 * E = 1 / pow2 570" .
  have big: "1 \<le> pow2 499" "pow2 499 < pow2 1023" "2 * pow2 499 = pow2 500" "2 * pow2 498 = pow2 499"
    using pow2_add[of 1 499] pow2_add[of 1 498] by (simp_all add: pow2_0[symmetric]) (simp_all add: pow2_def)
  \<comment> \<open>the complement of the weight\<close>
  have w1: "\<bar>1 - w\<bar> \<le> 1" using w by linarith
  then have "\<bar>1 - w\<bar> < pow2 1023" using big(1,2) by linarith
  then obtain c where c: "fl (1 - w) = Num c"
      and ce: "\<bar>c - (1 - w)\<bar> \<le> \<bar>1 - w\<bar> / pow2 53 + 1 / pow2 1075"
    using fl_err by blast
  have "\<bar>1 - w\<bar> / pow2 53 \<le> \<bar>1 - w\<bar> / 9000000000000000" by (rule rel_err_le) simp
  moreover have "\<bar>1 - w\<bar> / 9000000000000000 \<le> 1 / 9000000000000000"
    using w1 by (intro divide_right_mono) simp_all
  ultimately have dc: "\<bar>c - (1 - w)\<bar> \<le> 1 / 9000000000000000 + \<eta>"
    using ce unfolding \<eta>_def by linarith
  have c1: "\<bar>c\<bar> \<le> 1001 / 1000" using dc w \<eta>s by linarith
  \<comment> \<open>the first product\<close>
  have xc: "\<bar>x * c\<bar> \<le> X * (1001 / 1000)"
    unfolding abs_mult X_def using c1 by (intro mult_left_mono) simp_all
  then have "\<bar>x * c\<bar> < pow2 1023" using x big unfolding X_def by linarith
  then obtain p1 where p1: "fl (x * c) = Num p1"
      and p1e: "\<bar>p1 - x * c\<bar> \<le> \<bar>x * c\<bar> / pow2 53 + 1 / pow2 1075"
    using fl_err by blast
  have "\<bar>x * c\<bar> / pow2 53 \<le> \<bar>x * c\<bar> / 9000000000000000" by (rule rel_err_le) simp
  then have d1: "\<bar>p1 - x * c\<bar> \<le> X * (1001 / 1000) / 9000000000000000 + \<eta>"
    using p1e xc unfolding \<eta>_def by linarith
  have "\<bar>x * c - x * (1 - w)\<bar> = X * \<bar>c - (1 - w)\<bar>"
    unfolding X_def by (simp add: abs_mult[symmetric] right_diff_distrib)
  also have "\<dots> \<le> X * (1 / 9000000000000000 + \<eta>)" using dc X0 by (intro mult_left_mono)
  finally have d0: "\<bar>x * c - x * (1 - w)\<bar> \<le> X / 9000000000000000 + E"
    using XE by (simp add: distrib_left)
  \<comment> \<open>the second product\<close>
  have "\<bar>y * w\<bar> = Y * w" using w by (simp add: abs_mult Y_def)
  also have "\<dots> \<le> Y * 1" using w Y0 by (intro mult_left_mono) simp_all
  finally have yw: "\<bar>y * w\<bar> \<le> Y" by simp
  then have "\<bar>y * w\<bar> < pow2 1023" using y big unfolding Y_def by linarith
  then obtain p2 where p2: "fl (y * w) = Num p2"
      and p2e: "\<bar>p2 - y * w\<bar> \<le> \<bar>y * w\<bar> / pow2 53 + 1 / pow2 1075"
    using fl_err by blast
  have "\<bar>y * w\<bar> / pow2 53 \<le> \<bar>y * w\<bar> / 9000000000000000" by (rule rel_err_le) simp
  then have d2: "\<bar>p2 - y * w\<bar> \<le> Y / 9000000000000000 + \<eta>"
    using p2e yw unfolding \<eta>_def by linarith
  \<comment> \<open>the sum\<close>
  have s: "\<bar>p1 + p2\<bar> \<le> (1002 / 1000) * X + (1002 / 1000) * Y + 2 * \<eta>"
  proof -
    have "\<bar>p1\<bar> \<le> \<bar>x * c\<bar> + \<bar>p1 - x * c\<bar>" by linarith
    then have 1: "\<bar>p1\<bar> \<le> (1002 / 1000) * X + \<eta>" using d1 xc X0 by linarith
    have "\<bar>p2\<bar> \<le> \<bar>y * w\<bar> + \<bar>p2 - y * w\<bar>" by linarith
    then have 2: "\<bar>p2\<bar> \<le> (1002 / 1000) * Y + \<eta>" using d2 yw Y0 by linarith
    have "\<bar>p1 + p2\<bar> \<le> \<bar>p1\<bar> + \<bar>p2\<bar>" by linarith
    then show ?thesis using 1 2 by linarith
  qed
  have XY: "X + Y \<le> pow2 499" using x y big unfolding X_def Y_def by linarith
  have big5: "pow2 500 < pow2 1023" by simp
  have "\<bar>p1 + p2\<bar> < pow2 1023" using s XY big big5 \<eta>s by linarith
  then obtain b where b: "fl (p1 + p2) = Num b"
      and be: "\<bar>b - (p1 + p2)\<bar> \<le> \<bar>p1 + p2\<bar> / pow2 53 + 1 / pow2 1075"
    using fl_err by blast
  have "\<bar>p1 + p2\<bar> / pow2 53 \<le> \<bar>p1 + p2\<bar> / 9000000000000000" by (rule rel_err_le) simp
  then have d3: "\<bar>b - (p1 + p2)\<bar> \<le> \<bar>p1 + p2\<bar> / 9000000000000000 + \<eta>"
    using be unfolding \<eta>_def by linarith
  have res: "js_add (js_mul (Num x) (js_sub (Num 1) (Num w))) (js_mul (Num y) (Num w)) = Num b"
    by (simp add: js_sub_def c p1 p2 b)
  define P where "P = \<bar>p1 + p2\<bar>"
  define D3 where "D3 = \<bar>b - (p1 + p2)\<bar>"
  define D2 where "D2 = \<bar>p2 - y * w\<bar>"
  define D1 where "D1 = \<bar>p1 - x * c\<bar>"
  define D0 where "D0 = \<bar>x * c - x * (1 - w)\<bar>"
  note n = s d0 d1 d2 d3
  note m = n[folded P_def D3_def D2_def D1_def D0_def]
  have "\<bar>b\<bar> \<le> P + D3" unfolding P_def D3_def by linarith
  then have bb: "\<bar>b\<bar> \<le> pow2 500" using m(1,5) XY big \<eta>s \<eta>0 X0 Y0 by linarith
  have "\<bar>b - (x * (1 - w) + y * w)\<bar> \<le> D3 + D1 + D0 + D2"
    unfolding D3_def D2_def D1_def D0_def by linarith
  then have "\<bar>b - (x * (1 - w) + y * w)\<bar> \<le> X / 1000000000000000 + Y / 1000000000000000 + 128 * E"
    using m \<eta>E \<eta>0 X0 Y0 XE by linarith
  then have "\<bar>b - (x * (1 - w) + y * w)\<bar> \<le> (\<bar>x\<bar> + \<bar>y\<bar>) / 10 ^ 15 + 1 / pow2 570"
    unfolding E570 X_def Y_def by (simp add: add_divide_distrib)
  then show ?thesis using res bb by blast
qed


lemma blend_computed:
  assumes "length e = length ob" "0 \<le> w" "w \<le> 1"
    and "\<forall>x \<in> set e. \<bar>x\<bar> \<le> pow2 498" and "\<forall>x \<in> set ob. \<bar>x\<bar> \<le> pow2 498"
  shows "\<exists>b. map (\<lambda>(x, y). js_add (js_mul (Num x) (js_sub (Num 1) (Num w))) (js_mul (Num y) (Num w)))
               (zip e ob) = map Num b
           \<and> length b = length e
           \<and> (\<forall>x \<in> set b. \<bar>x\<bar> \<le> pow2 500)
           \<and> (\<forall>i < length e. \<bar>b ! i - spec_blend w e ob ! i\<bar>
                  \<le> (\<bar>e ! i\<bar> + \<bar>ob ! i\<bar>) / 10 ^ 15 + 1 / pow2 570)"
  using assms
proof (induction e ob rule: list_induct2)
  case Nil
  then show ?case by (simp add: spec_blend_def)
next
  case (Cons x e y ob)
  obtain b where b: "map (\<lambda>(x, y). js_add (js_mul (Num x) (js_sub (Num 1) (Num w))) (js_mul (Num y) (Num w)))
               (zip e ob) = map Num b" "length b = length e" "\<forall>x \<in> set b. \<bar>x\<bar> \<le> pow2 500"
      "\<forall>i < length e. \<bar>b ! i - spec_blend w e ob ! i\<bar>
                  \<le> (\<bar>e ! i\<bar> + \<bar>ob ! i\<bar>) / 10 ^ 15 + 1 / pow2 570"
    using Cons.IH Cons.prems by auto
  have "\<bar>x\<bar> \<le> pow2 498" "\<bar>y\<bar> \<le> pow2 498" using Cons.prems by simp_all
  from blend_entry_computed[OF Cons.prems(1,2) this]
  obtain b0 where b0: "js_add (js_mul (Num x) (js_sub (Num 1) (Num w))) (js_mul (Num y) (Num w)) = Num b0"
     "\<bar>b0\<bar> \<le> pow2 500" "\<bar>b0 - (x * (1 - w) + y * w)\<bar> \<le> (\<bar>x\<bar> + \<bar>y\<bar>) / 10 ^ 15 + 1 / pow2 570"
    by blast
  have 1: "map (\<lambda>(x, y). js_add (js_mul (Num x) (js_sub (Num 1) (Num w))) (js_mul (Num y) (Num w)))
               (zip (x # e) (y # ob)) = map Num (b0 # b)"
    using b(1) b0(1) by simp
  have 2: "length (b0 # b) = length (x # e)" using b(2) by simp
  have 3: "\<forall>x \<in> set (b0 # b). \<bar>x\<bar> \<le> pow2 500" using b(3) b0(2) by simp
  have 4: "\<forall>i < length (x # e). \<bar>(b0 # b) ! i - spec_blend w (x # e) (y # ob) ! i\<bar>
                  \<le> (\<bar>(x # e) ! i\<bar> + \<bar>(y # ob) ! i\<bar>) / 10 ^ 15 + 1 / pow2 570"
  proof (intro allI impI)
    fix i assume i: "i < length (x # e)"
    show "\<bar>(b0 # b) ! i - spec_blend w (x # e) (y # ob) ! i\<bar>
                  \<le> (\<bar>(x # e) ! i\<bar> + \<bar>(y # ob) ! i\<bar>) / 10 ^ 15 + 1 / pow2 570"
    proof (cases i)
      case 0
      then show ?thesis using b0(3) by (simp add: spec_blend_def)
    next
      case (Suc j)
      then have "j < length e" using i by simp
      then have "\<bar>b ! j - spec_blend w e ob ! j\<bar>
                  \<le> (\<bar>e ! j\<bar> + \<bar>ob ! j\<bar>) / 10 ^ 15 + 1 / pow2 570" using b(4) by blast
      then show ?thesis using Suc by (simp add: spec_blend_def)
    qed
  qed
  show ?case using 1 2 3 4 by blast
qed

text \<open>
  Claim C4, as amended. Let \<open>existing\<close> and \<open>observed\<close> be vectors of finite numbers of
  one length, at most 128, with entries of magnitude at most \<open>2^498\<close>, and let the
  weight be in \<open>[0, 1]\<close>. The blend the code computes is a vector \<open>b\<close> of finite numbers
  of that length, and its entry \<open>i\<close> differs from the blend of the specification,
  \<open>existing[i] * (1 - w) + observed[i] * w\<close>, by at most
  \<open>(|existing[i]| + |observed[i]|) / 10^15 + 2^-570\<close>. When some entry of \<open>b\<close> has
  magnitude at least \<open>2^-500\<close>, the normalized descriptor is a vector of finite numbers
  of the same length, its entry \<open>i\<close> is within \<open>10^-6\<close> of \<open>b[i] / ||b||\<close>, and its
  L2 norm is within \<open>10^-6\<close> of 1.
\<close>

theorem fusion_in_double_arithmetic:
  assumes "length e = length ob" "length e \<le> 128" "0 \<le> w" "w \<le> 1"
    and "\<forall>x \<in> set e. \<bar>x\<bar> \<le> pow2 498" and "\<forall>x \<in> set ob. \<bar>x\<bar> \<le> pow2 498"
  shows "\<exists>b. updatedDescriptor w (map Num e) (map Num ob) = map Num b
           \<and> length b = length e
           \<and> (\<forall>i < length e. \<bar>b ! i - spec_blend w e ob ! i\<bar>
                  \<le> (\<bar>e ! i\<bar> + \<bar>ob ! i\<bar>) / 10 ^ 15 + 1 / pow2 570)
           \<and> ((\<exists>x \<in> set b. 1 / pow2 500 \<le> \<bar>x\<bar>) \<longrightarrow>
                (\<exists>out. normalizedDescriptor w (map Num e) (map Num ob) = map Num out
                   \<and> length out = length e
                   \<and> (\<forall>i < length e. \<bar>out ! i - b ! i / l2_norm b\<bar> \<le> 1 / 10 ^ 6)
                   \<and> \<bar>l2_norm out - 1\<bar> \<le> 1 / 10 ^ 6))"
proof -
  obtain b where b: "updatedDescriptor w (map Num e) (map Num ob) = map Num b"
      "length b = length e" "\<forall>x \<in> set b. \<bar>x\<bar> \<le> pow2 500"
      "\<forall>i < length e. \<bar>b ! i - spec_blend w e ob ! i\<bar>
                  \<le> (\<bar>e ! i\<bar> + \<bar>ob ! i\<bar>) / 10 ^ 15 + 1 / pow2 570"
    using blend_computed[OF assms(1,3,4,5,6)] unfolding updatedDescriptor_entries[OF assms(1)]
    by blast
  have "\<exists>out. normalizedDescriptor w (map Num e) (map Num ob) = map Num out
                   \<and> length out = length e
                   \<and> (\<forall>i < length e. \<bar>out ! i - b ! i / l2_norm b\<bar> \<le> 1 / 10 ^ 6)
                   \<and> \<bar>l2_norm out - 1\<bar> \<le> 1 / 10 ^ 6"
    if nz: "\<exists>x \<in> set b. 1 / pow2 500 \<le> \<bar>x\<bar>"
  proof -
    have ne: "b \<noteq> []" using nz by auto
    have len: "length b \<le> 128" using b(2) assms(2) by simp
    show ?thesis
      using normalized_of_computed_blend[OF b(1) ne len b(3) nz] b(2) by simp
  qed
  then show ?thesis using b(1,2,4) by blast
qed


text \<open>
  The scenario of the specification: \<open>[1, 0]\<close> and \<open>[0, 1]\<close> at weight one half. The
  computed blend is \<open>[0.5, 0.5]\<close>, with no rounding, and the normalized descriptor is
  within a thousandth of \<open>[0.707, 0.707]\<close>.
\<close>

lemma sqrt2_bounds: "1414 / 1000 < sqrt 2" "sqrt 2 < 1415 / 1000"
proof -
  show "1414 / 1000 < sqrt 2"
    by (rule real_less_rsqrt) (simp add: power2_eq_square)
  show "sqrt 2 < 1415 / 1000"
    by (rule real_less_lsqrt) (simp_all add: power2_eq_square)
qed

lemma half_over_sqrt_half: "(1 / 2) / sqrt (1 / 2) = sqrt 2 / 2"
proof -
  have "sqrt 2 * sqrt 2 = 2" by simp
  then show ?thesis by (simp add: real_sqrt_divide field_simps)
qed

lemma fl_half: "fl (1 / 2) = Num (1 / 2)"
proof -
  have "fl (1 / 2) = Num (of_int 4503599627370496 / pow2 53)"
    by (rule fl_round_small) (simp_all add: pow2_def)
  then show ?thesis by (simp add: pow2_def)
qed

lemma ex_half_blend:
  "updatedDescriptor (1 / 2) (map Num [1, 0]) (map Num [0, 1]) = map Num [1 / 2, 1 / 2]"
proof -
  have "length [1, 0 :: real] = length [0, 1 :: real]" by simp
  from updatedDescriptor_entries[OF this, of "1 / 2"]
  show ?thesis by (simp add: js_sub_def fl_half fl_zero)
qed

theorem fusion_in_double_arithmetic_witness:
  "updatedDescriptor (1 / 2) (map Num [1, 0]) (map Num [0, 1]) = map Num [1 / 2, 1 / 2]
   \<and> spec_blend (1 / 2) [1, 0] [0, 1] = [1 / 2, 1 / 2]
   \<and> (\<exists>out. normalizedDescriptor (1 / 2) (map Num [1, 0]) (map Num [0, 1]) = map Num out
          \<and> length out = 2
          \<and> \<bar>out ! 0 - 707 / 1000\<bar> \<le> 1 / 1000 \<and> \<bar>out ! 1 - 707 / 1000\<bar> \<le> 1 / 1000
          \<and> \<bar>l2_norm out - 1\<bar> \<le> 1 / 10 ^ 6)"
proof -
  have h: "length [1, 0 :: real] = length [0, 1 :: real]" "length [1, 0 :: real] \<le> 128"
      "(0 :: real) \<le> 1 / 2" "(1 / 2 :: real) \<le> 1"
      "\<forall>x \<in> set [1, 0 :: real]. \<bar>x\<bar> \<le> pow2 498" "\<forall>x \<in> set [0, 1 :: real]. \<bar>x\<bar> \<le> pow2 498"
    using pow2_le[of 0 498] by (simp_all add: pow2_0)
  from fusion_in_double_arithmetic[OF h]
  obtain b where b: "updatedDescriptor (1 / 2) (map Num [1, 0]) (map Num [0, 1]) = map Num b"
      and n: "(\<exists>x \<in> set b. 1 / pow2 500 \<le> \<bar>x\<bar>) \<longrightarrow>
                (\<exists>out. normalizedDescriptor (1 / 2) (map Num [1, 0]) (map Num [0, 1]) = map Num out
                   \<and> length out = length [1, 0 :: real]
                   \<and> (\<forall>i < length [1, 0 :: real]. \<bar>out ! i - b ! i / l2_norm b\<bar> \<le> 1 / 10 ^ 6)
                   \<and> \<bar>l2_norm out - 1\<bar> \<le> 1 / 10 ^ 6)"
    by blast
  have "map Num b = map Num [1 / 2, 1 / 2]" using b ex_half_blend by simp
  moreover have "inj Num" by (simp add: inj_on_def)
  ultimately have bv: "b = [1 / 2, 1 / 2]" using inj_map_eq_map by blast
  have "1 / pow2 500 \<le> 1 / pow2 1" by (intro divide_left_mono) simp_all
  moreover have "1 / pow2 1 = (1 / 2 :: real)" by (simp add: pow2_def)
  ultimately have "1 / pow2 500 \<le> \<bar>1 / 2 :: real\<bar>" by linarith
  then have "\<exists>x \<in> set b. 1 / pow2 500 \<le> \<bar>x\<bar>" unfolding bv by simp
  with n obtain out where out: "normalizedDescriptor (1 / 2) (map Num [1, 0]) (map Num [0, 1]) = map Num out"
      "length out = 2" "\<forall>i < 2. \<bar>out ! i - b ! i / l2_norm b\<bar> \<le> 1 / 10 ^ 6"
      "\<bar>l2_norm out - 1\<bar> \<le> 1 / 10 ^ 6"
    by auto
  have l: "l2_norm b = sqrt (1 / 2)" by (simp add: bv l2_norm_def)
  have q: "b ! i / l2_norm b = sqrt 2 / 2" if "i < 2" for i
  proof -
    have "b ! i = 1 / 2" using that by (cases i) (simp_all add: bv)
    then show ?thesis using half_over_sqrt_half l by simp
  qed
  have "\<bar>out ! i - 707 / 1000\<bar> \<le> 1 / 1000" if "i < 2" for i
  proof -
    have "\<bar>out ! i - sqrt 2 / 2\<bar> \<le> 1 / 10 ^ 6" using out(3) q that by simp
    then have "\<bar>out ! i - sqrt 2 / 2\<bar> \<le> 1 / 1000000" by simp
    then show ?thesis using sqrt2_bounds by linarith
  qed
  then have "\<bar>out ! 0 - 707 / 1000\<bar> \<le> 1 / 1000" "\<bar>out ! 1 - 707 / 1000\<bar> \<le> 1 / 1000" by simp_all
  moreover have "spec_blend (1 / 2) [1, 0] [0, 1] = [1 / 2, 1 / 2]" by (simp add: spec_blend_def)
  ultimately show ?thesis using ex_half_blend out(1,2,4) by blast
qed

text \<open>
  Beyond that range the square of an entry can overflow. A stored unit descriptor is
  blended with an observed one whose first entry is \<open>2^600\<close>: the first entry of the
  blend is \<open>5404319552844595 * 2^545\<close>, its square is \<^verbatim>\<open>Infinity\<close>, and so
  are the sum and the magnitude. A finite number divided by \<^verbatim>\<open>Infinity\<close> is 0.
\<close>

lemma fl_complement:
  "fl (7656119366529843 / pow2 53) = Num (7656119366529843 / pow2 53)"
proof -
  have "fl (7656119366529843 / pow2 53) = Num (of_int 7656119366529843 / pow2 53)"
    by (rule fl_round_small) (simp_all add: pow2_def)
  then show ?thesis by simp
qed

lemma fl_huge_by_alpha:
  "fl (pow2 600 * alpha) = Num (5404319552844595 * pow2 545)"
proof -
  have "fl (pow2 600 * alpha) = Num (of_int 5404319552844595 * pow2 545)"
    by (rule fl_round_large) (simp_all add: alpha_def pow2_def)
  then show ?thesis by simp
qed

lemma fl_huge_sum:
  "fl (7656119366529843 / pow2 53 + 5404319552844595 * pow2 545)
     = Num (5404319552844595 * pow2 545)"
proof -
  have "fl (7656119366529843 / pow2 53 + 5404319552844595 * pow2 545)
      = Num (of_int 5404319552844595 * pow2 545)"
    by (rule fl_round_large) (simp_all add: pow2_def)
  then show ?thesis by simp
qed

lemma huge_square:
  "js_mul (Num (5404319552844595 * pow2 545)) (Num (5404319552844595 * pow2 545)) = PosInf"
proof -
  have "fl (5404319552844595 * pow2 545 * (5404319552844595 * pow2 545)) = PosInf"
    by (rule fl_overflow) (simp add: pow2_def)
  then show ?thesis by (simp only: js_mul.simps)
qed

lemma sum_stays_infinite:
  "foldl (\<lambda>sum val. js_add sum (js_mul val val)) PosInf (replicate n (Num 0)) = PosInf"
  by (induction n) (simp_all add: fl_zero)

lemma ex_overflow_blend:
  "updatedDescriptor alpha (map Num ex_unit) (map Num ex_huge)
     = Num (5404319552844595 * pow2 545) # replicate 127 (Num 0)"
proof -
  have "length ex_unit = length ex_huge" by (simp add: ex_unit_def ex_huge_def)
  from updatedDescriptor_entries[OF this, of alpha]
  show ?thesis
    by (simp add: ex_unit_def ex_huge_def one_minus_alpha fl_complement fl_huge_by_alpha fl_huge_sum
        fl_zero)
qed

lemma ex_overflow_magnitude:
  "magnitude (Num (5404319552844595 * pow2 545) # replicate 127 (Num 0)) = PosInf"
proof -
  have "foldl (\<lambda>sum val. js_add sum (js_mul val val)) (Num 0)
          (Num (5404319552844595 * pow2 545) # replicate 127 (Num 0))
      = foldl (\<lambda>sum val. js_add sum (js_mul val val)) PosInf (replicate 127 (Num 0))"
    by (simp only: foldl_Cons huge_square js_add.simps)
  then show ?thesis by (simp only: magnitude_def sum_stays_infinite js_sqrt.simps)
qed

lemma ex_overflow_normalized:
  "normalizedDescriptor alpha (map Num ex_unit) (map Num ex_huge) = replicate 128 (Num 0)"
proof -
  have "replicate 128 (Num 0) = Num 0 # replicate 127 (Num 0)"
    using replicate_Suc[of 127 "Num 0"] by simp
  then show ?thesis
    by (simp add: normalizedDescriptor_def ex_overflow_blend ex_overflow_magnitude Let_def)
qed

text \<open>
  The blend of the specification for these two vectors has a norm that is not zero,
  and the descriptor the code computes is the zero vector, of norm 0.
\<close>

theorem fusion_overflow_counterexample:
  "length ex_unit = length ex_huge \<and> ex_unit \<noteq> [] \<and> 0 < alpha \<and> alpha \<le> 1
   \<and> l2_norm (spec_blend alpha ex_unit ex_huge) \<noteq> 0
   \<and> normalizedDescriptor alpha (map Num ex_unit) (map Num ex_huge) = map Num (replicate 128 0)
   \<and> l2_norm (replicate 128 0) = 0"
proof -
  have a: "0 < alpha" "alpha \<le> 1" by (simp_all add: alpha_def pow2_def)
  define h where "h = 1 - alpha + pow2 600 * alpha"
  have "0 < pow2 600 * alpha" using a by simp
  then have h: "0 < h" using a unfolding h_def by linarith
  have "spec_blend alpha ex_unit ex_huge = h # replicate 127 0"
    by (simp add: spec_blend_def ex_unit_def ex_huge_def h_def)
  then have "h * h \<le> sum_list (map (\<lambda>x. x * x) (spec_blend alpha ex_unit ex_huge))"
    using square_le_sum_squares[of h "spec_blend alpha ex_unit ex_huge"] by simp
  moreover have "0 < h * h" using h by simp
  ultimately have "0 < sum_list (map (\<lambda>x. x * x) (spec_blend alpha ex_unit ex_huge))" by linarith
  then have 1: "l2_norm (spec_blend alpha ex_unit ex_huge) \<noteq> 0" by (simp add: l2_norm_def)
  have 2: "l2_norm (replicate 128 0) = 0" by (simp add: l2_norm_def sum_list_replicate)
  show ?thesis
    using a 1 2 ex_overflow_normalized by (simp add: ex_unit_def ex_huge_def)
qed







section \<open>The ledger when every request names the student's own class\<close>

text \<open>
  What a marking route does to the store: nothing, or one record appended under a fresh
  id, for a key no record had.
\<close>

lemma find_attendance_None_key:
  "find_attendance d sid cid sd = None \<Longrightarrow> (sid, cid, sd) \<notin> set (map record_key (attendances d))"
  by (auto simp: find_attendance_def find_None_iff record_key_def)

lemma mark_attendance_shape:
  assumes "mark_attendance cfg now sess req d = (res, d', sess', t)"
  shows "students d' = students d \<and>
         ((attendances d' = attendances d \<and> next_id d' = next_id d) \<or>
          (\<exists>a. attendances d' = attendances d @ [a] \<and> next_id d' = Suc (next_id d)
               \<and> att_id a = next_id d
               \<and> studentRef a = m_studentId req \<and> classRef a = m_classId req
               \<and> record_key a \<notin> set (map record_key (attendances d))))"
proof -
  obtain st sess1 d1 where ls: "load_settings cfg sess d = (st, sess1, d1)"
    using prod_cases3 by blast
  note l = load_settings_students[OF ls] load_settings_attendances[OF ls] load_settings_next_id[OF ls]
  show ?thesis
    using assms ls l
    by (auto simp: mark_attendance_def Let_def create_attendance_def record_key_def
        dest!: find_attendance_None_key split: if_splits option.splits)
qed

lemma manual_mark_shape:
  assumes "manual_mark_attendance cfg now req d = (res, d')"
  shows "students d' = students d \<and>
         ((attendances d' = attendances d \<and> next_id d' = next_id d) \<or>
          (\<exists>a. attendances d' = attendances d @ [a] \<and> next_id d' = Suc (next_id d)
               \<and> att_id a = next_id d
               \<and> studentRef a = mm_studentId req \<and> classRef a = mm_classId req
               \<and> record_key a \<notin> set (map record_key (attendances d))))"
  using assms
  by (auto simp: manual_mark_attendance_def Let_def create_attendance_def record_key_def
      dest!: find_attendance_None_key split: if_splits option.splits)


text \<open>Each operation keeps the invariant.\<close>

lemma invariant_append:
  assumes "ledger_invariant d"
    and "students d' = students d" "attendances d' = attendances d @ [a]"
    and "next_id d' = Suc (next_id d)" "att_id a = next_id d"
    and "record_key a \<notin> set (map record_key (attendances d))"
    and "class_of_student d (studentRef a) (classRef a)"
  shows "ledger_invariant d'"
proof -
  have "att_id a \<notin> set (map att_id (attendances d))"
    using assms(1,5) by (auto simp: ledger_invariant_def ids_fresh_def list_all_iff)
  moreover have "list_all (\<lambda>x. att_id x < Suc (next_id d)) (attendances d)"
    using assms(1) by (auto simp: ledger_invariant_def ids_fresh_def list_all_iff)
  ultimately have "ids_fresh d'"
    using assms(1,3,4,5) by (simp add: ledger_invariant_def ids_fresh_def)
  moreover have "one_record_per_key d'"
    using assms(1,3,6) by (simp add: ledger_invariant_def one_record_per_key_def)
  moreover have "class_consistent d'"
    using assms(1,2,3,7) by (simp add: ledger_invariant_def class_consistent_def class_of_student_def)
  ultimately show ?thesis
    using assms(1,2) by (simp add: ledger_invariant_def)
qed

lemma delete_first_subset: "set (delete_first i xs) \<subseteq> set xs"
  by (induction xs) auto

lemma delete_first_distinct:
  "distinct (map f xs) \<Longrightarrow> distinct (map f (delete_first i xs))"
proof (induction xs)
  case Nil
  then show ?case by simp
next
  case (Cons x xs)
  then show ?case using delete_first_subset[of i xs] by auto
qed

lemma invariant_cancel:
  assumes "ledger_invariant d"
  shows "ledger_invariant (snd (cancel_attendance i d))"
proof (cases "List.find (\<lambda>a. att_id a = i) (attendances d)")
  case None
  then show ?thesis using assms by (simp add: cancel_attendance_def)
next
  case (Some r)
  then have d': "snd (cancel_attendance i d) = d\<lparr>attendances := delete_first i (attendances d)\<rparr>"
    by (simp add: cancel_attendance_def)
  show ?thesis
    unfolding d'
    using assms delete_first_subset[of i "attendances d"]
    by (auto simp: ledger_invariant_def one_record_per_key_def class_consistent_def ids_fresh_def
        class_of_student_def list_all_iff delete_first_distinct)
qed

lemma invariant_insertMany:
  assumes "ledger_invariant d" "distinct (map info_id us)"
    and "\<forall>s \<in> set us. (info_id s, cid, sd) \<notin> set (map record_key (attendances d))
            \<and> class_of_student d (info_id s) clid"
  shows "ledger_invariant (insertMany_absent cid clid sd ts us d)"
  using assms
proof (induction us arbitrary: d)
  case Nil
  then show ?case by (simp add: insertMany_absent_def)
next
  case (Cons u us)
  let ?d = "insert_absent cid clid sd ts d u"
  let ?a = "\<lparr>att_id = next_id d, studentRef = info_id u, courseRef = cid, classRef = clid,
            att_status = absent, confidenceScore = 0, markedBy = system, sessionDate = sd,
            timestamp = ts\<rparr>"
  have inv: "ledger_invariant ?d"
    using Cons.prems(1,3)
    by (intro invariant_append[of d ?d ?a]) (simp_all add: insert_absent_eq record_key_def)
  have ne: "info_id s \<noteq> info_id u" if "s \<in> set us" for s
    using Cons.prems(2) that by (auto simp: image_iff)
  have "\<forall>s \<in> set us. (info_id s, cid, sd) \<notin> set (map record_key (attendances ?d))
            \<and> class_of_student ?d (info_id s) clid"
    using Cons.prems(3) ne by (auto simp: insert_absent_eq record_key_def class_of_student_def)
  then have "ledger_invariant (insertMany_absent cid clid sd ts us ?d)"
    using Cons.IH[OF inv] Cons.prems(2) by simp
  then show ?case by (simp add: insertMany_absent_def)
qed

lemma invariant_end_session:
  assumes "ledger_invariant d"
  shows "ledger_invariant (snd (end_session cfg now req d))"
proof -
  let ?clid = "es_classId req" and ?cid = "es_courseId req" and ?sd = "session_date (cfg_tz cfg) now"
  let ?all = "allStudents d ?clid"
  let ?un = "unmarkedStudents ?all (markedAttendance d ?cid ?clid ?sd)"
  have ds: "distinct (map student_id (students d))"
    using assms by (simp add: ledger_invariant_def)
  have "map info_id ?all = map student_id (filter (\<lambda>s. student_classRef s = ?clid \<and> isEnrolled s) (students d))"
    by (simp add: allStudents_def select_info_def comp_def)
  then have "distinct (map info_id ?all)" using ds by (simp add: distinct_map_filter)
  then have dun: "distinct (map info_id ?un)"
    by (simp add: unmarkedStudents_def distinct_map_filter)
  have ok: "(info_id s, ?cid, ?sd) \<notin> set (map record_key (attendances d))
            \<and> class_of_student d (info_id s) ?clid" if s: "s \<in> set ?un" for s
  proof -
    from s obtain stu where stu: "stu \<in> set (students d)" "student_classRef stu = ?clid"
      "info_id s = student_id stu"
      by (auto simp: unmarked_iff allStudents_def select_info_def)
    have cls: "class_of_student d (info_id s) c \<longleftrightarrow> c = ?clid" for c
    proof
      assume "class_of_student d (info_id s) c"
      then show "c = ?clid" using stu by (auto simp: class_of_student_def list_all_iff)
    next
      assume c: "c = ?clid"
      have "s' = stu" if "s' \<in> set (students d)" "student_id s' = student_id stu" for s'
        using that stu(1) ds by (meson distinct_map inj_onD)
      then show "class_of_student d (info_id s) c"
        using stu c by (auto simp: class_of_student_def list_all_iff)
    qed
    have "classRef a = ?clid" if "a \<in> set (attendances d)" "studentRef a = info_id s" for a
      using that assms cls by (auto simp: ledger_invariant_def class_consistent_def list_all_iff)
    then have "(info_id s, ?cid, ?sd) \<notin> set (map record_key (attendances d))"
      using s by (auto simp: unmarked_iff record_key_def)
    then show ?thesis using cls by simp
  qed
  have "snd (end_session cfg now req d) = d
      \<or> snd (end_session cfg now req d) = insertMany_absent ?cid ?clid ?sd now ?un d"
    by (auto simp: end_session_def Let_def)
  then show ?thesis
    using assms invariant_insertMany[OF assms dun, of ?cid ?sd ?clid now] ok by auto
qed

lemma invariant_step:
  assumes "ledger_invariant d" "names_own_class d op"
  shows "ledger_invariant (apply_operation cfg now op d)
       \<and> students (apply_operation cfg now op d) = students d"
proof (cases op)
  case (MarkBiometric sess req)
  obtain res d' sess' t where m: "mark_attendance cfg now sess req d = (res, d', sess', t)"
    using prod_cases4 by blast
  have d': "apply_operation cfg now op d = d'" using m MarkBiometric by simp
  have st: "students d' = students d" using mark_attendance_shape[OF m] by simp
  have "ledger_invariant d'"
    using mark_attendance_shape[OF m] assms MarkBiometric
  proof (elim conjE disjE exE)
    assume "attendances d' = attendances d" "next_id d' = next_id d"
    then show ?thesis using assms(1) st
      by (simp add: ledger_invariant_def one_record_per_key_def class_consistent_def
          ids_fresh_def class_of_student_def)
  next
    fix a assume a: "attendances d' = attendances d @ [a]" "next_id d' = Suc (next_id d)"
      "att_id a = next_id d" "studentRef a = m_studentId req" "classRef a = m_classId req"
      "record_key a \<notin> set (map record_key (attendances d))"
    show ?thesis
      using invariant_append[OF assms(1) st a(1,2,3,6)] a(4,5) assms(2) MarkBiometric by simp
  qed
  then show ?thesis using d' st by simp
next
  case (MarkManual req)
  obtain res d' where m: "manual_mark_attendance cfg now req d = (res, d')"
    by (cases "manual_mark_attendance cfg now req d")
  have d': "apply_operation cfg now op d = d'" using m MarkManual by simp
  have st: "students d' = students d" using manual_mark_shape[OF m] by simp
  have "ledger_invariant d'"
    using manual_mark_shape[OF m] assms MarkManual
  proof (elim conjE disjE exE)
    assume "attendances d' = attendances d" "next_id d' = next_id d"
    then show ?thesis using assms(1) st
      by (simp add: ledger_invariant_def one_record_per_key_def class_consistent_def
          ids_fresh_def class_of_student_def)
  next
    fix a assume a: "attendances d' = attendances d @ [a]" "next_id d' = Suc (next_id d)"
      "att_id a = next_id d" "studentRef a = mm_studentId req" "classRef a = mm_classId req"
      "record_key a \<notin> set (map record_key (attendances d))"
    show ?thesis
      using invariant_append[OF assms(1) st a(1,2,3,6)] a(4,5) assms(2) MarkManual by simp
  qed
  then show ?thesis using d' st by simp
next
  case (Finalize req)
  then show ?thesis
    using invariant_end_session[OF assms(1), of cfg now req]
      end_session_students[of cfg now req d]
    by (cases "end_session cfg now req d") simp
next
  case (Cancel i)
  then show ?thesis
    using invariant_cancel[OF assms(1), of i] by (auto simp: cancel_attendance_def split: option.splits)
qed

lemma invariant_run:
  assumes "ledger_invariant d" "list_all (\<lambda>(now, op). names_own_class d op) ops"
  shows "ledger_invariant (run cfg ops d)"
  using assms
proof (induction ops arbitrary: d)
  case Nil
  then show ?case by simp
next
  case (Cons x ops)
  obtain now op where x: "x = (now, op)" by (cases x)
  let ?d = "apply_operation cfg now op d"
  have step: "ledger_invariant ?d" "students ?d = students d"
    using invariant_step[of d op cfg now] Cons.prems x by simp_all
  have "names_own_class ?d = names_own_class d"
  proof (rule ext)+
    fix o' show "names_own_class ?d o' = names_own_class d o'"
      using step(2) by (cases o') (simp_all add: class_of_student_def)
  qed
  then have "list_all (\<lambda>(now, op). names_own_class ?d op) ops"
    using Cons.prems(2) x by simp
  then show ?case using Cons.IH[OF step(1)] x by simp
qed

text \<open>
  From a ledger with no record and students of distinct ids, every sequence of
  operations whose marking requests name the class the student belongs to leaves at
  most one record for each student, course and day. The two records of claim C1 need a
  marking request that names another class.
\<close>

lemma one_record_per_key_when_classes_agree:
  assumes "attendances d = []" "distinct (map student_id (students d))"
    and "list_all (\<lambda>(now, op). names_own_class d op) ops"
  shows "one_record_per_key (run cfg ops d)"
proof -
  have "ledger_invariant d"
    using assms(1,2)
    by (simp add: ledger_invariant_def one_record_per_key_def class_consistent_def ids_fresh_def)
  then show ?thesis
    using invariant_run[OF _ assms(3)] by (simp add: ledger_invariant_def)
qed

end
